theory Spec2Isabelle
  imports Complex_Main
begin

section \<open>Numbers\<close>

text \<open>
  The routing code computes with JavaScript numbers. Coordinates, lengths and travel
  times come from the graph data and are modelled as exact reals; the score tables also
  hold \<open>Infinity\<close>, so a score is either a real or \<open>Infinity\<close>. Rounding and
  \<open>NaN\<close> are outside this model.
\<close>

datatype jsnum = Num real | Infinity

fun js_less :: "jsnum \<Rightarrow> jsnum \<Rightarrow> bool" where
  "js_less (Num a) (Num b) = (a < b)"
| "js_less (Num a) Infinity = True"
| "js_less Infinity b = False"

text \<open>\<open>a >= b\<close> on numbers that are not \<open>NaN\<close>.\<close>

definition js_ge :: "jsnum \<Rightarrow> jsnum \<Rightarrow> bool" where
  "js_ge a b = (\<not> js_less a b)"

fun js_add :: "jsnum \<Rightarrow> jsnum \<Rightarrow> jsnum" where
  "js_add (Num a) (Num b) = Num (a + b)"
| "js_add (Num a) Infinity = Infinity"
| "js_add Infinity b = Infinity"

text \<open>
  \<open>m.get(k) || Infinity\<close>: the default is taken for a missing entry and for every
  falsy number, that is for a stored \<open>0\<close> as well.
\<close>

fun orInfinity :: "jsnum option \<Rightarrow> jsnum" where
  "orInfinity None = Infinity"
| "orInfinity (Some Infinity) = Infinity"
| "orInfinity (Some (Num r)) = (if r = 0 then Infinity else Num r)"

text \<open>\<open>m.get(k) || 0\<close>.\<close>

fun orZero :: "jsnum option \<Rightarrow> jsnum" where
  "orZero None = Num 0"
| "orZero (Some v) = v"

section \<open>Graph data\<close>

text \<open>
  The fields \<open>id\<close>, \<open>lat\<close>, \<open>lon\<close> of a node and \<open>from\<close>, \<open>to\<close>, \<open>length\<close> of an
  edge carry a prefix here: their names are taken by HOL, by Isar or by \<open>Coordinate\<close>.
\<close>

record GraphNode =
  node_id :: int
  node_lat :: real
  node_lon :: real

record GraphEdge =
  edge_from :: int
  edge_to :: int
  edge_length :: real
  travel_time :: real
  maxspeed :: "real option"

text \<open>
  \<open>nodes\<close> is an object keyed by the decimal string of a node id. It is modelled as the
  list of its entries in property enumeration order (the order of \<open>for ... in\<close>), each
  key represented by the integer it spells; \<open>graph.nodes[k.toString()]\<close> is the lookup
  \<open>lookupNode\<close>.
\<close>

record GraphData =
  nodes :: "(int \<times> GraphNode) list"
  edges :: "GraphEdge list"
  node_count :: int
  edge_count :: int

record Coordinate =
  lat :: real
  lon :: real

definition lookupNode :: "GraphData \<Rightarrow> int \<Rightarrow> GraphNode option" where
  "lookupNode graph k = map_of (nodes graph) k"

text \<open>
  The input contract of the graph: the keys of \<open>nodes\<close> are distinct (it is an object)
  and every entry is stored under its own id.
\<close>

definition wf_graph :: "GraphData \<Rightarrow> bool" where
  "wf_graph graph =
     (distinct (map fst (nodes graph)) \<and>
      list_all (\<lambda>(k, node). node_id node = k) (nodes graph))"

section \<open>Haversine distance\<close>

definition toRadians :: "real \<Rightarrow> real" where
  "toRadians degrees = degrees * (pi / 180)"

text \<open>\<open>Math.atan2(y, x)\<close> on reals.\<close>

definition atan2 :: "real \<Rightarrow> real \<Rightarrow> real" where
  "atan2 y x =
     (if 0 < x then arctan (y / x)
      else if x < 0 then (if 0 \<le> y then arctan (y / x) + pi else arctan (y / x) - pi)
      else if 0 < y then pi / 2
      else if y < 0 then - (pi / 2)
      else 0)"

definition haversineDistance :: "real \<Rightarrow> real \<Rightarrow> real \<Rightarrow> real \<Rightarrow> real" where
  "haversineDistance lat1 lon1 lat2 lon2 =
     (let R = 6371;
          dLat = toRadians (lat2 - lat1);
          dLon = toRadians (lon2 - lon1);
          a = sin (dLat / 2) * sin (dLat / 2) +
              cos (toRadians lat1) * cos (toRadians lat2) *
              sin (dLon / 2) * sin (dLon / 2);
          c = 2 * atan2 (sqrt a) (sqrt (1 - a))
      in R * c)"

section \<open>Nearest node\<close>

text \<open>
  The scan keeps the pair \<open>(minDistance, nearestNodeId)\<close>, starting from
  \<open>(Infinity, -1)\<close>, and replaces it on a strictly smaller distance only.
\<close>

definition nearestStep :: "Coordinate \<Rightarrow> jsnum \<times> int \<Rightarrow> int \<times> GraphNode \<Rightarrow> jsnum \<times> int" where
  "nearestStep point acc entry =
     (let distance = Num (haversineDistance (lat point) (lon point)
                            (node_lat (snd entry)) (node_lon (snd entry)))
      in if js_less distance (fst acc) then (distance, node_id (snd entry)) else acc)"

definition findNearestNode :: "GraphData \<Rightarrow> Coordinate \<Rightarrow> int" where
  "findNearestNode graph point = snd (foldl (nearestStep point) (Infinity, - 1) (nodes graph))"

section \<open>Adjacency list\<close>

definition edgeWeight :: "GraphEdge \<Rightarrow> real" where
  "edgeWeight edge = (if travel_time edge > 0 then travel_time edge else edge_length edge)"

definition addEdge :: "(int \<rightharpoonup> (int \<times> real) list) \<Rightarrow> GraphEdge \<Rightarrow> (int \<rightharpoonup> (int \<times> real) list)" where
  "addEdge adjacencyList edge =
     (let entries = (case adjacencyList (edge_from edge) of None \<Rightarrow> [] | Some l \<Rightarrow> l)
      in adjacencyList(edge_from edge \<mapsto> entries @ [(edge_to edge, edgeWeight edge)]))"

definition buildAdjacencyList :: "GraphData \<Rightarrow> (int \<rightharpoonup> (int \<times> real) list)" where
  "buildAdjacencyList graph = foldl addEdge Map.empty (edges graph)"

text \<open>\<open>adjacencyList.get(currentNode) || []\<close>.\<close>

definition neighborsOf :: "(int \<rightharpoonup> (int \<times> real) list) \<Rightarrow> int \<Rightarrow> (int \<times> real) list" where
  "neighborsOf adjacencyList u = (case adjacencyList u of None \<Rightarrow> [] | Some l \<Rightarrow> l)"

section \<open>Heuristic\<close>

definition heuristicDistance :: "GraphData \<Rightarrow> int \<Rightarrow> int \<Rightarrow> jsnum" where
  "heuristicDistance graph nodeId endNodeId =
     (case lookupNode graph nodeId of
        None \<Rightarrow> Infinity
      | Some node \<Rightarrow>
          (case lookupNode graph endNodeId of
             None \<Rightarrow> Infinity
           | Some endNode \<Rightarrow>
               (let distanceKm = haversineDistance (node_lat node) (node_lon node)
                                   (node_lat endNode) (node_lon endNode);
                    averageSpeedKmh = 50;
                    timeEstimate = (distanceKm / averageSpeedKmh) * 3600
                in Num timeEstimate)))"

section \<open>The A* search\<close>

datatype error = NearestNodeNotFound | NoPathFound | TypeError

text \<open>
  The tables of one call. \<open>previous\<close> is only ever read through
  \<open>previous.get(n) || null\<close>, so a missing entry and a stored \<open>null\<close> are both
  \<open>None\<close>. \<open>openSet\<close> is a JavaScript \<open>Set\<close>, iterated in insertion order: a list
  without repetition.
\<close>

record search =
  gScore :: "int \<rightharpoonup> jsnum"
  fScore :: "int \<rightharpoonup> jsnum"
  previous :: "int \<rightharpoonup> int"
  openSet :: "int list"
  closedSet :: "int set"

definition initNode :: "search \<Rightarrow> int \<times> GraphNode \<Rightarrow> search" where
  "initNode st entry =
     st\<lparr>gScore := (gScore st)(node_id (snd entry) \<mapsto> Infinity),
        fScore := (fScore st)(node_id (snd entry) \<mapsto> Infinity),
        previous := (previous st)(node_id (snd entry) := None)\<rparr>"

definition initSearch :: "GraphData \<Rightarrow> int \<Rightarrow> int \<Rightarrow> search" where
  "initSearch graph startNode endNode =
     (let st0 = foldl initNode
                  \<lparr>gScore = Map.empty, fScore = Map.empty, previous = Map.empty,
                   openSet = [], closedSet = {}\<rparr> (nodes graph);
          hStart = heuristicDistance graph startNode endNode
      in st0\<lparr>gScore := (gScore st0)(startNode \<mapsto> Num 0),
             fScore := (fScore st0)(startNode \<mapsto> hStart),
             openSet := [startNode]\<rparr>)"

text \<open>The scan of the open set for the lowest \<open>fScore\<close>: \<open>(currentNode, minFScore)\<close>.\<close>

definition selectStep :: "search \<Rightarrow> int \<times> jsnum \<Rightarrow> int \<Rightarrow> int \<times> jsnum" where
  "selectStep st acc nodeId =
     (let f = orInfinity (fScore st nodeId)
      in if js_less f (snd acc) then (nodeId, f) else acc)"

definition selectMin :: "search \<Rightarrow> int \<times> jsnum" where
  "selectMin st = foldl (selectStep st) (- 1, Infinity) (openSet st)"

text \<open>One pass of the neighbour loop, for the edge to \<open>neighbor\<close> of weight \<open>weight\<close>.\<close>

definition relax :: "GraphData \<Rightarrow> int \<Rightarrow> int \<Rightarrow> search \<Rightarrow> int \<times> real \<Rightarrow> search" where
  "relax graph endNode currentNode st neighbor =
     (if fst neighbor \<in> closedSet st then st
      else
        let tentativeGScore = js_add (orZero (gScore st currentNode)) (Num (snd neighbor));
            isNew = (fst neighbor \<notin> set (openSet st))
        in if \<not> isNew \<and> js_ge tentativeGScore (orInfinity (gScore st (fst neighbor))) then st
           else
             st\<lparr>openSet := (if isNew then openSet st @ [fst neighbor] else openSet st),
                previous := (previous st)(fst neighbor \<mapsto> currentNode),
                gScore := (gScore st)(fst neighbor \<mapsto> tentativeGScore),
                fScore := (fScore st)(fst neighbor \<mapsto>
                            js_add tentativeGScore (heuristicDistance graph (fst neighbor) endNode))\<rparr>)"

definition expand :: "GraphData \<Rightarrow> (int \<rightharpoonup> (int \<times> real) list) \<Rightarrow> int \<Rightarrow> int \<Rightarrow> search \<Rightarrow> search" where
  "expand graph adjacencyList endNode currentNode st =
     foldl (relax graph endNode currentNode)
       (st\<lparr>openSet := removeAll currentNode (openSet st),
           closedSet := insert currentNode (closedSet st)\<rparr>)
       (neighborsOf adjacencyList currentNode)"

text \<open>\<open>previous.get(pathNode) || null\<close>: a stored predecessor \<open>0\<close> is falsy.\<close>

definition previousOf :: "search \<Rightarrow> int \<Rightarrow> int option" where
  "previousOf st pathNode =
     (case previous st pathNode of
        None \<Rightarrow> None
      | Some p \<Rightarrow> (if p = 0 then None else Some p))"

text \<open>The walk back along \<open>previous\<close>; it ends when \<open>pathNode\<close> is \<open>null\<close>.\<close>

partial_function (option) reconstructPath :: "search \<Rightarrow> int option \<Rightarrow> int list \<Rightarrow> int list option" where
  "reconstructPath st pathNode path =
     (case pathNode of
        None \<Rightarrow> Some path
      | Some n \<Rightarrow> reconstructPath st (previousOf st n) (n # path))"

text \<open>
  The main loop. It yields the array \<open>path\<close> of node ids when the goal is selected, and
  the no-path error when the loop is left.
\<close>

partial_function (option) aStarLoop ::
  "GraphData \<Rightarrow> (int \<rightharpoonup> (int \<times> real) list) \<Rightarrow> int \<Rightarrow> search \<Rightarrow> (error + int list) option" where
  "aStarLoop graph adjacencyList endNode st =
     (if openSet st = [] then Some (Inl NoPathFound)
      else if fst (selectMin st) = - 1 \<or> snd (selectMin st) = Infinity then Some (Inl NoPathFound)
      else if fst (selectMin st) = endNode
        then map_option Inr (reconstructPath st (Some endNode) [])
      else aStarLoop graph adjacencyList endNode
             (expand graph adjacencyList endNode (fst (selectMin st)) st))"

text \<open>The conversion of the ids of \<open>path\<close> to coordinates skips ids without a node.\<close>

definition routeCoords :: "GraphData \<Rightarrow> int list \<Rightarrow> Coordinate list" where
  "routeCoords graph path =
     concat (map (\<lambda>nodeId. case lookupNode graph nodeId of
                             None \<Rightarrow> []
                           | Some node \<Rightarrow> [\<lparr>lat = node_lat node, lon = node_lon node\<rparr>]) path)"

text \<open>The search after both endpoints are resolved and differ: the id path or the error.\<close>

definition searchPath :: "GraphData \<Rightarrow> int \<Rightarrow> int \<Rightarrow> (error + int list) option" where
  "searchPath graph startNode endNode =
     aStarLoop graph (buildAdjacencyList graph) endNode (initSearch graph startNode endNode)"

definition calculateRoute :: "GraphData \<Rightarrow> Coordinate \<Rightarrow> Coordinate \<Rightarrow> (error + Coordinate list) option" where
  "calculateRoute graph startCoord endCoord =
     (let startNode = findNearestNode graph startCoord;
          endNode = findNearestNode graph endCoord
      in if startNode = - 1 \<or> endNode = - 1 then Some (Inl NearestNodeNotFound)
         else if startNode = endNode then
           (case lookupNode graph startNode of
              None \<Rightarrow> Some (Inl TypeError)
            | Some node \<Rightarrow> Some (Inr [\<lparr>lat = node_lat node, lon = node_lon node\<rparr>]))
         else map_option (map_sum (\<lambda>e. e) (routeCoords graph)) (searchPath graph startNode endNode))"


section \<open>Notions used in the properties\<close>

text \<open>The distance that \<open>findNearestNode\<close> computes for one node.\<close>

definition distanceTo :: "Coordinate \<Rightarrow> GraphNode \<Rightarrow> real" where
  "distanceTo point node =
     haversineDistance (lat point) (lon point) (node_lat node) (node_lon node)"

text \<open>
  Entry \<open>i\<close> of the enumeration is a nearest one, and the first of the nearest ones.
\<close>

definition nearestAt :: "GraphData \<Rightarrow> Coordinate \<Rightarrow> nat \<Rightarrow> bool" where
  "nearestAt graph point i =
     (i < length (nodes graph) \<and>
      (\<forall>j < length (nodes graph).
          distanceTo point (snd (nodes graph ! i)) \<le> distanceTo point (snd (nodes graph ! j))) \<and>
      (\<forall>j < i. distanceTo point (snd (nodes graph ! i)) < distanceTo point (snd (nodes graph ! j))))"

text \<open>
  The term \<open>a\<close> of \<open>haversineDistance\<close>: the haversine of the central angle between
  the two points.
\<close>

definition haversine_a :: "real \<Rightarrow> real \<Rightarrow> real \<Rightarrow> real \<Rightarrow> real" where
  "haversine_a lat1 lon1 lat2 lon2 =
     sin (toRadians (lat2 - lat1) / 2) * sin (toRadians (lat2 - lat1) / 2) +
     cos (toRadians lat1) * cos (toRadians lat2) *
     sin (toRadians (lon2 - lon1) / 2) * sin (toRadians (lon2 - lon1) / 2)"

text \<open>A walk along edges of the graph from \<open>u\<close> to \<open>v\<close>, and its total search weight.\<close>

fun is_walk :: "GraphData \<Rightarrow> int \<Rightarrow> GraphEdge list \<Rightarrow> int \<Rightarrow> bool" where
  "is_walk graph u [] v = (u = v)"
| "is_walk graph u (e # es) v =
     (e \<in> set (edges graph) \<and> edge_from e = u \<and> is_walk graph (edge_to e) es v)"

definition walkWeight :: "GraphEdge list \<Rightarrow> real" where
  "walkWeight es = sum_list (map edgeWeight es)"

definition js_le :: "jsnum \<Rightarrow> jsnum \<Rightarrow> bool" where
  "js_le a b = (\<not> js_less b a)"


text \<open>
  The estimate is consistent: along every edge it drops by at most the weight of the edge.
\<close>

definition consistent :: "GraphData \<Rightarrow> int \<Rightarrow> bool" where
  "consistent graph endNode =
     (\<forall>e\<in>set (edges graph).
        js_le (heuristicDistance graph (edge_from e) endNode)
              (js_add (Num (edgeWeight e)) (heuristicDistance graph (edge_to e) endNode)))"


text \<open>No edge leaves a node with id \<open>0\<close>.\<close>

definition nonzero_sources :: "GraphData \<Rightarrow> bool" where
  "nonzero_sources graph = (\<forall>e\<in>set (edges graph). edge_from e \<noteq> 0)"


text \<open>Every id of the path has a node, and \<open>c\<close> is the coordinate of the node of \<open>n\<close>.\<close>

definition onNodes :: "GraphData \<Rightarrow> int list \<Rightarrow> bool" where
  "onNodes graph path = list_all (\<lambda>n. lookupNode graph n \<noteq> None) path"

definition coordinateOf :: "GraphData \<Rightarrow> int \<Rightarrow> Coordinate \<Rightarrow> bool" where
  "coordinateOf graph n c =
     (\<exists>node. lookupNode graph n = Some node \<and> c = \<lparr>lat = node_lat node, lon = node_lon node\<rparr>)"

section \<open>Invariants of the search\<close>

text \<open>
  The state that \<open>relax\<close> returns when it records a better path to \<open>neighbor\<close>: the
  last four statements of the loop body.
\<close>

definition record_path :: "GraphData \<Rightarrow> int \<Rightarrow> int \<Rightarrow> search \<Rightarrow> int \<times> real \<Rightarrow> search" where
  "record_path graph endNode currentNode st neighbor =
     st\<lparr>openSet := (if fst neighbor \<notin> set (openSet st) then openSet st @ [fst neighbor] else openSet st),
        previous := (previous st)(fst neighbor \<mapsto> currentNode),
        gScore := (gScore st)(fst neighbor \<mapsto> js_add (orZero (gScore st currentNode)) (Num (snd neighbor))),
        fScore := (fScore st)(fst neighbor \<mapsto>
                    js_add (js_add (orZero (gScore st currentNode)) (Num (snd neighbor)))
                      (heuristicDistance graph (fst neighbor) endNode))\<rparr>"



text \<open>The stored \<open>gScore\<close> of a node as a real, and the \<open>fScore\<close> that belongs to it.\<close>

definition gv :: "search \<Rightarrow> int \<Rightarrow> real" where
  "gv st n = (case gScore st n of Some (Num x) \<Rightarrow> x | _ \<Rightarrow> 0)"

definition fv :: "GraphData \<Rightarrow> int \<Rightarrow> search \<Rightarrow> int \<Rightarrow> jsnum" where
  "fv graph endNode st n = js_add (Num (gv st n)) (heuristicDistance graph n endNode)"

definition known :: "search \<Rightarrow> int set" where
  "known st = set (openSet st) \<union> closedSet st"




text \<open>
  A walk from the start to \<open>n\<close> whose edges leave closed nodes and are the links of
  \<open>previous\<close>, and the invariant of the loop that holds for every graph: each known
  node has such a walk, its \<open>fScore\<close> is a sum with its estimate, and every closed node
  has an entry in \<open>nodes\<close>.
\<close>

definition links :: "GraphData \<Rightarrow> int \<Rightarrow> search \<Rightarrow> int \<Rightarrow> GraphEdge list \<Rightarrow> bool" where
  "links graph startNode st n es =
     (is_walk graph startNode es n \<and>
      (\<forall>e\<in>set es. edge_from e \<in> closedSet st \<and> previous st (edge_to e) = Some (edge_from e)))"

definition path_inv :: "GraphData \<Rightarrow> int \<Rightarrow> int \<Rightarrow> search \<Rightarrow> bool" where
  "path_inv graph startNode endNode st =
     ((startNode \<in> closedSet st \<or> (closedSet st = {} \<and> openSet st = [startNode])) \<and>
      previous st startNode = None \<and>
      (\<forall>n\<in>known st. \<exists>es. links graph startNode st n es) \<and>
      (\<forall>n\<in>known st. \<exists>x. fScore st n = Some (js_add x (heuristicDistance graph n endNode))) \<and>
      (\<forall>c\<in>closedSet st. lookupNode graph c \<noteq> None))"

section \<open>Example graphs\<close>

text \<open>Two nodes half the equator apart, the first with id \<open>0\<close>, and one edge between them.\<close>

definition zeroIdGraph :: GraphData where
  "zeroIdGraph =
     \<lparr>nodes = [(0, \<lparr>node_id = 0, node_lat = 0, node_lon = 0\<rparr>),
               (1, \<lparr>node_id = 1, node_lat = 0, node_lon = 180\<rparr>)],
      edges = [\<lparr>edge_from = 0, edge_to = 1, edge_length = 1, travel_time = 5, maxspeed = None\<rparr>],
      node_count = 2, edge_count = 1\<rparr>"

text \<open>
  The chain 1 \<rightarrow> 2 \<rightarrow> 3 of the weight-selection property: the first edge has a positive
  travel time, the second has travel time 0 and length 20.
\<close>

definition chainGraph :: GraphData where
  "chainGraph =
     \<lparr>nodes = [(1, \<lparr>node_id = 1, node_lat = 0, node_lon = 0\<rparr>),
               (2, \<lparr>node_id = 2, node_lat = 0, node_lon = 1 / 1000\<rparr>),
               (3, \<lparr>node_id = 3, node_lat = 0, node_lon = 2 / 1000\<rparr>)],
      edges = [\<lparr>edge_from = 1, edge_to = 2, edge_length = 1, travel_time = 5, maxspeed = None\<rparr>,
               \<lparr>edge_from = 2, edge_to = 3, edge_length = 20, travel_time = 0, maxspeed = None\<rparr>],
      node_count = 3, edge_count = 2\<rparr>"

text \<open>Two nodes half the equator apart, joined by an edge of travel time 0 and length 0.\<close>

definition zeroWeightGraph :: GraphData where
  "zeroWeightGraph =
     \<lparr>nodes = [(1, \<lparr>node_id = 1, node_lat = 0, node_lon = 0\<rparr>),
               (2, \<lparr>node_id = 2, node_lat = 0, node_lon = 180\<rparr>)],
      edges = [\<lparr>edge_from = 1, edge_to = 2, edge_length = 0, travel_time = 0, maxspeed = None\<rparr>],
      node_count = 2, edge_count = 1\<rparr>"

text \<open>
  A \<open>nodes\<close> object whose third entry carries the id of the second: the entries under
  the keys 1 and 2 lie at the same point, and a query near the third entry resolves to
  the id 2.
\<close>

definition coincidentGraph :: GraphData where
  "coincidentGraph =
     \<lparr>nodes = [(1, \<lparr>node_id = 1, node_lat = 0, node_lon = 0\<rparr>),
               (2, \<lparr>node_id = 2, node_lat = 0, node_lon = 0\<rparr>),
               (3, \<lparr>node_id = 2, node_lat = 0, node_lon = 180\<rparr>)],
      edges = [\<lparr>edge_from = 1, edge_to = 2, edge_length = 1, travel_time = 5, maxspeed = None\<rparr>],
      node_count = 3, edge_count = 1\<rparr>"

text \<open>An edge with the given travel time and length 1.\<close>

definition timedEdge :: "int \<Rightarrow> int \<Rightarrow> real \<Rightarrow> GraphEdge" where
  "timedEdge u v seconds =
     \<lparr>edge_from = u, edge_to = v, edge_length = 1, travel_time = seconds, maxspeed = None\<rparr>"



text \<open>
  An edge of travel time 0 and length 0, and a graph with one: from node 2 the goal 1 is
  reached through 4, at no cost over the free edge or for 1 + 1 through node 3. The
  estimate is consistent.
\<close>

definition freeEdge :: "int \<Rightarrow> int \<Rightarrow> GraphEdge" where
  "freeEdge u v = \<lparr>edge_from = u, edge_to = v, edge_length = 0, travel_time = 0, maxspeed = None\<rparr>"

definition freeRideGraph :: GraphData where
  "freeRideGraph =
     \<lparr>nodes = [(1, \<lparr>node_id = 1, node_lat = 0, node_lon = 0\<rparr>),
               (2, \<lparr>node_id = 2, node_lat = 0, node_lon = 90\<rparr>),
               (3, \<lparr>node_id = 3, node_lat = 0, node_lon = 90\<rparr>),
               (4, \<lparr>node_id = 4, node_lat = 0, node_lon = 180\<rparr>)],
      edges = [freeEdge 2 4, timedEdge 2 3 1, timedEdge 3 4 1, timedEdge 4 1 2000000],
      node_count = 4, edge_count = 4\<rparr>"

section \<open>Haversine distance: basic facts\<close>

lemma sin_half_sq: "sin (x / 2) * sin (x / 2) = (1 - cos x) / (2::real)"
  using cos_double_sin [of "x / 2"] by (simp add: power2_eq_square)

lemma haversine_a_nonneg:
  fixes p1 p2 l :: real
  shows "0 \<le> sin ((p2 - p1) / 2) * sin ((p2 - p1) / 2) + cos p1 * cos p2 * sin (l / 2) * sin (l / 2)"
proof -
  let ?t = "sin (l / 2) * sin (l / 2)"
  have t0: "0 \<le> ?t" by simp
  have t1: "?t \<le> 1"
    using sin_cos_squared_add3 [of "l / 2"] zero_le_square [of "cos (l / 2)"] by linarith
  show ?thesis
  proof (cases "0 \<le> cos p1 * cos p2")
    case True
    have "0 \<le> (cos p1 * cos p2) * ?t" using True t0 by (rule mult_nonneg_nonneg)
    moreover have "0 \<le> sin ((p2 - p1) / 2) * sin ((p2 - p1) / 2)" by simp
    ultimately show ?thesis by (simp add: mult.assoc)
  next
    case False
    then have neg: "cos p1 * cos p2 \<le> 0" by simp
    have "cos p1 * cos p2 \<le> cos p1 * cos p2 * ?t"
      using mult_left_mono_neg [OF t1 neg] by (simp add: mult.assoc)
    moreover have "sin ((p2 - p1) / 2) * sin ((p2 - p1) / 2) + cos p1 * cos p2 = (1 + cos (p1 + p2)) / 2"
      by (simp add: sin_half_sq cos_diff cos_add field_simps)
    moreover have "0 \<le> (1 + cos (p1 + p2)) / 2"
      using cos_ge_minus_one [of "p1 + p2"] by (simp del: cos_ge_minus_one cos_add)
    ultimately show ?thesis by (simp add: mult.assoc)
  qed
qed

lemma atan2_nonneg:
  assumes y: "0 \<le> y"
  shows "0 \<le> atan2 y x"
proof -
  have "- (pi / 2) < arctan (y / x)" by (rule arctan_lbound)
  moreover have "0 < pi" by simp
  moreover have "0 < x \<Longrightarrow> 0 \<le> arctan (y / x)" using y by (simp add: zero_le_divide_iff)
  ultimately show ?thesis using y unfolding atan2_def by (auto simp del: pi_gt_zero)
qed

lemma haversine_nonneg: "0 \<le> haversineDistance lat1 lon1 lat2 lon2"
proof -
  have "0 \<le> sin ((toRadians lat2 - toRadians lat1) / 2) * sin ((toRadians lat2 - toRadians lat1) / 2)
           + cos (toRadians lat1) * cos (toRadians lat2)
             * sin (toRadians (lon2 - lon1) / 2) * sin (toRadians (lon2 - lon1) / 2)"
    by (rule haversine_a_nonneg)
  moreover have "toRadians (lat2 - lat1) = toRadians lat2 - toRadians lat1"
    by (simp add: toRadians_def left_diff_distrib)
  ultimately show ?thesis
    by (simp add: haversineDistance_def Let_def atan2_nonneg)
qed

lemma haversine_same: "haversineDistance a b a b = 0"
  by (simp add: haversineDistance_def toRadians_def atan2_def)

lemma haversine_0_180: "haversineDistance 0 0 0 180 = 6371 * pi"
  by (simp add: haversineDistance_def toRadians_def atan2_def)

lemma haversine_180_0: "haversineDistance 0 180 0 0 = 6371 * pi"
  by (simp add: haversineDistance_def toRadians_def atan2_def)


subsection \<open>The distance depends on the points of the sphere only\<close>

lemma haversineDistance_a:
  "haversineDistance lat1 lon1 lat2 lon2 =
     6371 * (2 * atan2 (sqrt (haversine_a lat1 lon1 lat2 lon2)) (sqrt (1 - haversine_a lat1 lon1 lat2 lon2)))"
  by (simp add: haversineDistance_def haversine_a_def Let_def)

lemma toRadians_diff: "toRadians (x - y) = toRadians x - toRadians y"
  by (simp add: toRadians_def left_diff_distrib)

lemma haversine_a_dot:
  "haversine_a lat1 lon1 lat2 lon2 =
     (1 - (cos (toRadians lat1) * cos (toRadians lon1) * (cos (toRadians lat2) * cos (toRadians lon2))
         + cos (toRadians lat1) * sin (toRadians lon1) * (cos (toRadians lat2) * sin (toRadians lon2))
         + sin (toRadians lat1) * sin (toRadians lat2))) / 2"
proof -
  let ?p1 = "toRadians lat1" and ?p2 = "toRadians lat2"
  let ?l1 = "toRadians lon1" and ?l2 = "toRadians lon2"
  have 1: "sin ((?p2 - ?p1) / 2) * sin ((?p2 - ?p1) / 2) = (1 - cos (?p2 - ?p1)) / 2"
    by (rule sin_half_sq)
  have 2: "cos ?p1 * cos ?p2 * sin ((?l2 - ?l1) / 2) * sin ((?l2 - ?l1) / 2)
             = cos ?p1 * cos ?p2 * ((1 - cos (?l2 - ?l1)) / 2)"
    using sin_half_sq [of "?l2 - ?l1"] by (simp add: mult.assoc)
  show ?thesis
    unfolding haversine_a_def toRadians_diff 1 2
    by (simp add: cos_diff field_simps)
qed

lemma atan2_pos_all: "0 < y \<Longrightarrow> 0 < atan2 y x"
proof -
  assume y: "0 < y"
  have "- (pi / 2) < arctan (y / x)" by (rule arctan_lbound)
  moreover have "0 < pi" by simp
  moreover have "0 < x \<Longrightarrow> 0 < arctan (y / x)" using y by (simp add: zero_less_arctan_iff)
  ultimately show ?thesis using y unfolding atan2_def by (auto simp del: pi_gt_zero)
qed

lemma haversine_a_ge_zero: "0 \<le> haversine_a lat1 lon1 lat2 lon2"
  unfolding haversine_a_def toRadians_diff by (rule haversine_a_nonneg)

lemma haversine_zero_a:
  assumes "haversineDistance lat1 lon1 lat2 lon2 = 0"
  shows "haversine_a lat1 lon1 lat2 lon2 = 0"
proof (rule ccontr)
  assume "haversine_a lat1 lon1 lat2 lon2 \<noteq> 0"
  then have "0 < haversine_a lat1 lon1 lat2 lon2"
    using haversine_a_ge_zero [of lat1 lon1 lat2 lon2] by simp
  then have "0 < sqrt (haversine_a lat1 lon1 lat2 lon2)" by simp
  from atan2_pos_all [OF this, of "sqrt (1 - haversine_a lat1 lon1 lat2 lon2)"]
  show False using assms by (simp add: haversineDistance_a)
qed

lemma sum_squares_zero:
  fixes a b c :: real
  assumes "a * a + b * b + c * c = 0"
  shows "a = 0 \<and> b = 0 \<and> c = 0"
proof -
  have "0 \<le> a * a" "0 \<le> b * b" "0 \<le> c * c" by simp_all
  then have "a * a = 0" "b * b = 0" "c * c = 0" using assms by linarith+
  then show ?thesis by simp
qed

lemma unit_dot_one:
  fixes x1 y1 z1 x2 y2 z2 :: real
  assumes "x1 * x1 + y1 * y1 + z1 * z1 = 1" "x2 * x2 + y2 * y2 + z2 * z2 = 1"
    and "x1 * x2 + y1 * y2 + z1 * z2 = 1"
  shows "x1 = x2 \<and> y1 = y2 \<and> z1 = z2"
proof -
  have "(x1 - x2) * (x1 - x2) + (y1 - y2) * (y1 - y2) + (z1 - z2) * (z1 - z2) = 0"
    using assms by (simp add: algebra_simps)
  from sum_squares_zero [OF this] show ?thesis by simp
qed

lemma unit_vector:
  "cos p * cos l * (cos p * cos l) + cos p * sin l * (cos p * sin l) + sin p * sin p = (1::real)"
proof -
  have "cos p * cos l * (cos p * cos l) + cos p * sin l * (cos p * sin l)
          = (cos p * cos p) * (cos l * cos l) + (cos p * cos p) * (sin l * sin l)"
    by (simp only: mult_ac)
  also have "\<dots> = (cos p * cos p) * (cos l * cos l + sin l * sin l)"
    by (simp only: distrib_left)
  also have "\<dots> = cos p * cos p" by simp
  finally show ?thesis by simp
qed

lemma haversine_zero_equidistant:
  assumes "haversineDistance lat1 lon1 lat2 lon2 = 0"
  shows "haversineDistance qlat qlon lat1 lon1 = haversineDistance qlat qlon lat2 lon2"
proof -
  let ?x = "\<lambda>la lo. cos (toRadians la) * cos (toRadians lo)"
  let ?y = "\<lambda>la lo. cos (toRadians la) * sin (toRadians lo)"
  let ?z = "\<lambda>la. sin (toRadians la)"
  have "haversine_a lat1 lon1 lat2 lon2 = 0" using assms by (rule haversine_zero_a)
  then have dot: "?x lat1 lon1 * ?x lat2 lon2 + ?y lat1 lon1 * ?y lat2 lon2 + ?z lat1 * ?z lat2 = 1"
    by (simp add: haversine_a_dot)
  have "?x lat1 lon1 = ?x lat2 lon2 \<and> ?y lat1 lon1 = ?y lat2 lon2 \<and> ?z lat1 = ?z lat2"
    by (rule unit_dot_one [OF unit_vector unit_vector dot])
  then have "haversine_a qlat qlon lat1 lon1 = haversine_a qlat qlon lat2 lon2"
    by (simp add: haversine_a_dot)
  then show ?thesis by (simp add: haversineDistance_a)
qed

subsection \<open>The arcsine form of the distance\<close>

lemma unit_dot_ge:
  fixes x1 y1 z1 x2 y2 z2 :: real
  assumes "x1 * x1 + y1 * y1 + z1 * z1 = 1" "x2 * x2 + y2 * y2 + z2 * z2 = 1"
  shows "- 1 \<le> x1 * x2 + y1 * y2 + z1 * z2"
proof -
  have "0 \<le> (x1 + x2) * (x1 + x2) + (y1 + y2) * (y1 + y2) + (z1 + z2) * (z1 + z2)"
    by (intro add_nonneg_nonneg) simp_all
  also have "\<dots> = (x1 * x1 + y1 * y1 + z1 * z1) + (x2 * x2 + y2 * y2 + z2 * z2)
                    + 2 * (x1 * x2 + y1 * y2 + z1 * z2)"
    by (simp add: algebra_simps)
  finally show ?thesis unfolding assms by simp
qed

lemma haversine_a_le_one: "haversine_a lat1 lon1 lat2 lon2 \<le> 1"
proof -
  have half: "(1 - d) / 2 \<le> 1" if "- 1 \<le> d" for d :: real using that by simp
  show ?thesis
    unfolding haversine_a_dot
    by (rule half [OF unit_dot_ge [OF unit_vector unit_vector]])
qed

lemma atan2_arcsin:
  assumes y: "0 \<le> y" "y \<le> 1"
  shows "atan2 y (sqrt (1 - y * y)) = arcsin y"
proof (cases "y = 1")
  case True
  then show ?thesis by (simp add: atan2_def)
next
  case False
  then have y1: "y < 1" using y by simp
  have "y * y < 1 * 1" using y y1 by (intro mult_strict_mono') simp_all
  then have x: "0 < sqrt (1 - y * y)" by simp
  let ?t = "arcsin y"
  have b: "- (pi / 2) < ?t" "?t < pi / 2"
    using arcsin_lt_bounded [of y] y y1 by simp_all
  have "cos ?t = sqrt (1 - y * y)"
    using cos_arcsin [of y] y by (simp add: power2_eq_square)
  moreover have "sin ?t = y" using y by simp
  ultimately have "tan ?t = y / sqrt (1 - y * y)" by (simp add: tan_def)
  then have "arctan (y / sqrt (1 - y * y)) = ?t" using b by (intro arctan_unique) simp_all
  then show ?thesis using x by (simp add: atan2_def)
qed

lemma haversineDistance_arcsin:
  "haversineDistance lat1 lon1 lat2 lon2 = 2 * 6371 * arcsin (sqrt (haversine_a lat1 lon1 lat2 lon2))"
proof -
  let ?a = "haversine_a lat1 lon1 lat2 lon2"
  have a: "0 \<le> ?a" "?a \<le> 1" by (rule haversine_a_ge_zero, rule haversine_a_le_one)
  have "atan2 (sqrt ?a) (sqrt (1 - sqrt ?a * sqrt ?a)) = arcsin (sqrt ?a)"
    using a by (intro atan2_arcsin) (simp_all add: real_le_lsqrt)
  then show ?thesis using a by (simp add: haversineDistance_a)
qed

section \<open>The heuristic\<close>


section \<open>Nearest node\<close>

lemma nearestStep_Num:
  "nearestStep p (Num m, r) x =
     (if distanceTo p (snd x) < m then (Num (distanceTo p (snd x)), node_id (snd x)) else (Num m, r))"
  by (simp add: nearestStep_def distanceTo_def Let_def)

lemma nearestStep_first:
  "nearestStep p (Infinity, r) x = (Num (distanceTo p (snd x)), node_id (snd x))"
  by (simp add: nearestStep_def distanceTo_def)

text \<open>
  The scan from an incumbent at distance \<open>m\<close>: either no entry is strictly nearer and the
  incumbent stays, or the result is the first of the entries at the least distance.
\<close>

lemma nearest_scan:
  "(foldl (nearestStep p) (Num m, r) xs = (Num m, r) \<and> (\<forall>x \<in> set xs. m \<le> distanceTo p (snd x)))
   \<or> (\<exists>i < length xs.
          foldl (nearestStep p) (Num m, r) xs = (Num (distanceTo p (snd (xs ! i))), node_id (snd (xs ! i)))
          \<and> distanceTo p (snd (xs ! i)) < m
          \<and> (\<forall>j < length xs. distanceTo p (snd (xs ! i)) \<le> distanceTo p (snd (xs ! j)))
          \<and> (\<forall>j < i. distanceTo p (snd (xs ! i)) < distanceTo p (snd (xs ! j))))"
proof (induction xs arbitrary: m r)
  case Nil
  then show ?case by simp
next
  case (Cons x xs)
  let ?d = "distanceTo p (snd x)"
  show ?case
  proof (cases "?d < m")
    case True
    from Cons.IH [of ?d "node_id (snd x)"]
    show ?thesis
    proof (elim disjE exE conjE)
      assume a: "foldl (nearestStep p) (Num ?d, node_id (snd x)) xs = (Num ?d, node_id (snd x))"
        and b: "\<forall>y \<in> set xs. ?d \<le> distanceTo p (snd y)"
      have "\<forall>j < length (x # xs). ?d \<le> distanceTo p (snd ((x # xs) ! j))"
        using b by (auto simp: nth_Cons split: nat.splits)
      then show ?thesis using a True
        by (intro disjI2 exI [of _ 0]) (simp add: nearestStep_Num)
    next
      fix i
      assume i: "i < length xs"
        and a: "foldl (nearestStep p) (Num ?d, node_id (snd x)) xs
                 = (Num (distanceTo p (snd (xs ! i))), node_id (snd (xs ! i)))"
        and lt: "distanceTo p (snd (xs ! i)) < ?d"
        and all: "\<forall>j < length xs. distanceTo p (snd (xs ! i)) \<le> distanceTo p (snd (xs ! j))"
        and before: "\<forall>j < i. distanceTo p (snd (xs ! i)) < distanceTo p (snd (xs ! j))"
      have 1: "\<forall>j < length (x # xs).
                 distanceTo p (snd ((x # xs) ! Suc i)) \<le> distanceTo p (snd ((x # xs) ! j))"
        using all lt by (auto simp: nth_Cons split: nat.splits)
      have 2: "\<forall>j < Suc i. distanceTo p (snd ((x # xs) ! Suc i)) < distanceTo p (snd ((x # xs) ! j))"
        using before lt by (auto simp: nth_Cons split: nat.splits)
      show ?thesis using a True lt i 1 2
        by (intro disjI2 exI [of _ "Suc i"]) (simp add: nearestStep_Num)
    qed
  next
    case False
    from Cons.IH [of m r]
    show ?thesis
    proof (elim disjE exE conjE)
      assume a: "foldl (nearestStep p) (Num m, r) xs = (Num m, r)"
        and b: "\<forall>y \<in> set xs. m \<le> distanceTo p (snd y)"
      show ?thesis using a b False by (intro disjI1) (simp add: nearestStep_Num)
    next
      fix i
      assume i: "i < length xs"
        and a: "foldl (nearestStep p) (Num m, r) xs
                 = (Num (distanceTo p (snd (xs ! i))), node_id (snd (xs ! i)))"
        and lt: "distanceTo p (snd (xs ! i)) < m"
        and all: "\<forall>j < length xs. distanceTo p (snd (xs ! i)) \<le> distanceTo p (snd (xs ! j))"
        and before: "\<forall>j < i. distanceTo p (snd (xs ! i)) < distanceTo p (snd (xs ! j))"
      have 1: "\<forall>j < length (x # xs).
                 distanceTo p (snd ((x # xs) ! Suc i)) \<le> distanceTo p (snd ((x # xs) ! j))"
        using all lt False by (auto simp: nth_Cons split: nat.splits)
      have 2: "\<forall>j < Suc i. distanceTo p (snd ((x # xs) ! Suc i)) < distanceTo p (snd ((x # xs) ! j))"
        using before lt False by (auto simp: nth_Cons split: nat.splits)
      show ?thesis using a False lt i 1 2
        by (intro disjI2 exI [of _ "Suc i"]) (simp add: nearestStep_Num)
    qed
  qed
qed

lemma findNearestNode_scan:
  assumes "nodes graph \<noteq> []"
  shows "\<exists>i. nearestAt graph point i \<and> findNearestNode graph point = node_id (snd (nodes graph ! i))"
proof -
  obtain x xs where xs: "nodes graph = x # xs" using assms by (cases "nodes graph") auto
  let ?d = "distanceTo point (snd x)"
  have f: "findNearestNode graph point = snd (foldl (nearestStep point) (Num ?d, node_id (snd x)) xs)"
    by (simp add: findNearestNode_def xs nearestStep_first)
  from nearest_scan [of point ?d "node_id (snd x)" xs]
  show ?thesis
  proof (elim disjE exE conjE)
    assume a: "foldl (nearestStep point) (Num ?d, node_id (snd x)) xs = (Num ?d, node_id (snd x))"
      and b: "\<forall>y \<in> set xs. ?d \<le> distanceTo point (snd y)"
    have "nearestAt graph point 0"
      using b by (auto simp: nearestAt_def xs nth_Cons split: nat.splits)
    then show ?thesis using a f by (intro exI [of _ 0]) (simp add: xs)
  next
    fix i
    assume i: "i < length xs"
      and a: "foldl (nearestStep point) (Num ?d, node_id (snd x)) xs
               = (Num (distanceTo point (snd (xs ! i))), node_id (snd (xs ! i)))"
      and lt: "distanceTo point (snd (xs ! i)) < ?d"
      and all: "\<forall>j < length xs. distanceTo point (snd (xs ! i)) \<le> distanceTo point (snd (xs ! j))"
      and before: "\<forall>j < i. distanceTo point (snd (xs ! i)) < distanceTo point (snd (xs ! j))"
    have "nearestAt graph point (Suc i)"
      using i lt all before by (auto simp: nearestAt_def xs nth_Cons split: nat.splits)
    then show ?thesis using a f by (intro exI [of _ "Suc i"]) (simp add: xs)
  qed
qed

lemma findNearestNode_empty: "nodes graph = [] \<Longrightarrow> findNearestNode graph point = - 1"
  by (simp add: findNearestNode_def)

lemma nodes_zeroIdGraph:
  "nodes zeroIdGraph = [(0, \<lparr>node_id = 0, node_lat = 0, node_lon = 0\<rparr>),
                        (1, \<lparr>node_id = 1, node_lat = 0, node_lon = 180\<rparr>)]"
  by (simp add: zeroIdGraph_def)



section \<open>Adjacency list and edge weights\<close>

lemma neighborsOf_addEdge:
  "neighborsOf (addEdge m e) u =
     neighborsOf m u @ (if edge_from e = u then [(edge_to e, edgeWeight e)] else [])"
  by (simp add: neighborsOf_def addEdge_def Let_def split: option.splits)

lemma neighborsOf_foldl:
  "neighborsOf (foldl addEdge m es) u =
     neighborsOf m u @ map (\<lambda>e. (edge_to e, edgeWeight e)) (filter (\<lambda>e. edge_from e = u) es)"
  by (induction es arbitrary: m) (simp_all add: neighborsOf_addEdge)

lemma neighborsOf_build:
  "neighborsOf (buildAdjacencyList graph) u =
     map (\<lambda>e. (edge_to e, edgeWeight e)) (filter (\<lambda>e. edge_from e = u) (edges graph))"
  by (simp add: buildAdjacencyList_def neighborsOf_foldl) (simp add: neighborsOf_def)

lemma atan2_pos: "0 < y \<Longrightarrow> 0 \<le> x \<Longrightarrow> 0 < atan2 y x"
  by (auto simp: atan2_def zero_less_arctan_iff)

lemma haversine_chain_pos: "0 < haversineDistance 0 0 0 (2 / 1000)"
proof -
  let ?x = "pi / 180000"
  have x: "0 < ?x" "?x < pi" by simp_all
  have s: "0 < sin ?x" using x by (rule sin_gt_zero)
  have a: "0 < sin ?x * sin ?x" using s by simp
  have "sin ?x * sin ?x \<le> 1"
    using sin_cos_squared_add3 [of ?x] zero_le_square [of "cos ?x"] by linarith
  then have "0 < atan2 (sqrt (sin ?x * sin ?x)) (sqrt (1 - sin ?x * sin ?x))"
    using a s by (intro atan2_pos) simp_all
  then show ?thesis
    by (simp add: haversineDistance_def toRadians_def Let_def)
qed

lemma nodes_chainGraph:
  "nodes chainGraph = [(1, \<lparr>node_id = 1, node_lat = 0, node_lon = 0\<rparr>),
                       (2, \<lparr>node_id = 2, node_lat = 0, node_lon = 1 / 1000\<rparr>),
                       (3, \<lparr>node_id = 3, node_lat = 0, node_lon = 2 / 1000\<rparr>)]"
  by (simp add: chainGraph_def)

lemma edges_chainGraph:
  "edges chainGraph =
     [\<lparr>edge_from = 1, edge_to = 2, edge_length = 1, travel_time = 5, maxspeed = None\<rparr>,
      \<lparr>edge_from = 2, edge_to = 3, edge_length = 20, travel_time = 0, maxspeed = None\<rparr>]"
  by (simp add: chainGraph_def)

lemma heuristic_chain_1: "\<exists>x. 0 < x \<and> heuristicDistance chainGraph 1 3 = Num x"
  using haversine_chain_pos by (simp add: heuristicDistance_def lookupNode_def nodes_chainGraph)

lemma heuristic_chain_2: "\<exists>x. 0 \<le> x \<and> heuristicDistance chainGraph 2 3 = Num x"
  using haversine_nonneg by (simp add: heuristicDistance_def lookupNode_def nodes_chainGraph)

lemma heuristic_chain_3: "heuristicDistance chainGraph 3 3 = Num 0"
  by (simp add: heuristicDistance_def lookupNode_def nodes_chainGraph haversine_same)

lemma neighbors_chainGraph:
  "neighborsOf (buildAdjacencyList chainGraph) 1 = [(2, 5)]"
  "neighborsOf (buildAdjacencyList chainGraph) 2 = [(3, 20)]"
  by (simp_all add: neighborsOf_build edges_chainGraph edgeWeight_def)

lemmas step_defs = selectMin_def selectStep_def expand_def relax_def Let_def
  initSearch_def initNode_def previousOf_def js_ge_def

lemma search_chainGraph:
  "searchPath chainGraph 1 3 = Some (Inr [1, 2, 3]) \<and>
   gScore (expand chainGraph (buildAdjacencyList chainGraph) 3 2
            (expand chainGraph (buildAdjacencyList chainGraph) 3 1 (initSearch chainGraph 1 3))) 3
     = Some (Num 25)"
proof -
  obtain x where x: "0 < x" "heuristicDistance chainGraph 1 3 = Num x"
    using heuristic_chain_1 by blast
  obtain y where y: "0 \<le> y" "heuristicDistance chainGraph 2 3 = Num y"
    using heuristic_chain_2 by blast
  have nz: "x \<noteq> 0" "5 + y \<noteq> 0" using x(1) y(1) by simp_all
  note facts = step_defs neighbors_chainGraph x y nz heuristic_chain_3 nodes_chainGraph
  have 1: "searchPath chainGraph 1 3 = Some (Inr [1, 2, 3])"
    unfolding searchPath_def
    apply (subst aStarLoop.simps, simp add: facts)
    apply (subst aStarLoop.simps, simp add: facts)
    apply (subst aStarLoop.simps, simp add: facts)
    apply (subst reconstructPath.simps, simp add: step_defs)
    apply (subst reconstructPath.simps, simp add: step_defs)
    apply (subst reconstructPath.simps, simp add: step_defs)
    apply (subst reconstructPath.simps, simp add: step_defs)
    done
  have 2: "gScore (expand chainGraph (buildAdjacencyList chainGraph) 3 2
            (expand chainGraph (buildAdjacencyList chainGraph) 3 1 (initSearch chainGraph 1 3))) 3
     = Some (Num 25)"
    by (simp add: facts)
  show ?thesis using 1 2 by simp
qed

text \<open>
  C2. The weight of an edge is its travel time when that is strictly positive and its
  length otherwise, edge by edge: the adjacency list of a node holds, in edge order, the
  target and this weight of every edge leaving it. On the chain 1 \<rightarrow> 2 \<rightarrow> 3 with
  (travel time 5, length 1) and (travel time 0, length 20) the search from 1 to 3 finds
  the path 1, 2, 3; the weights of its edges add up to 25, and 25 is the \<open>gScore\<close> the
  search has for node 3 when it selects it.
\<close>

theorem edge_weight_selection:
  "edgeWeight edge = (if travel_time edge > 0 then travel_time edge else edge_length edge) \<and>
   neighborsOf (buildAdjacencyList graph) u =
     map (\<lambda>e. (edge_to e, edgeWeight e)) (filter (\<lambda>e. edge_from e = u) (edges graph)) \<and>
   searchPath chainGraph 1 3 = Some (Inr [1, 2, 3]) \<and>
   is_walk chainGraph 1 (edges chainGraph) 3 \<and>
   1 # map edge_to (edges chainGraph) = [1, 2, 3] \<and>
   walkWeight (edges chainGraph) = 25 \<and>
   gScore (expand chainGraph (buildAdjacencyList chainGraph) 3 2
            (expand chainGraph (buildAdjacencyList chainGraph) 3 1 (initSearch chainGraph 1 3))) 3
     = Some (Num 25)"
  using search_chainGraph
  by (simp add: neighborsOf_build edges_chainGraph walkWeight_def) (simp add: edgeWeight_def)

section \<open>Failures of nearest-node resolution\<close>

lemma sentinel_fails:
  "findNearestNode graph startCoord = - 1 \<or> findNearestNode graph endCoord = - 1 \<Longrightarrow>
   calculateRoute graph startCoord endCoord = Some (Inl NearestNodeNotFound)"
  by (auto simp: calculateRoute_def)

text \<open>
  C6. On a graph without nodes both resolutions yield the sentinel \<open>-1\<close>, and
  \<open>calculateRoute\<close> fails with the nearest-node error: the sentinel is tested before
  any use as a node id.
\<close>

theorem empty_graph_fails:
  "nodes graph = [] \<Longrightarrow>
     findNearestNode graph startCoord = - 1 \<and> findNearestNode graph endCoord = - 1 \<and>
     calculateRoute graph startCoord endCoord = Some (Inl NearestNodeNotFound)"
  by (simp add: calculateRoute_def findNearestNode_empty)

theorem empty_graph_fails_witness:
  "nodes (zeroIdGraph\<lparr>nodes := []\<rparr>) = [] \<and>
   findNearestNode (zeroIdGraph\<lparr>nodes := []\<rparr>) \<lparr>lat = 0, lon = 0\<rparr> = - 1 \<and>
   findNearestNode (zeroIdGraph\<lparr>nodes := []\<rparr>) \<lparr>lat = 0, lon = 180\<rparr> = - 1 \<and>
   calculateRoute (zeroIdGraph\<lparr>nodes := []\<rparr>) \<lparr>lat = 0, lon = 0\<rparr> \<lparr>lat = 0, lon = 180\<rparr>
     = Some (Inl NearestNodeNotFound)"
  using empty_graph_fails [of "zeroIdGraph\<lparr>nodes := []\<rparr>" "\<lparr>lat = 0, lon = 0\<rparr>" "\<lparr>lat = 0, lon = 180\<rparr>"]
  by simp

section \<open>Start and end at the same node\<close>

lemma wf_lookup:
  assumes "wf_graph graph" "i < length (nodes graph)"
  shows "lookupNode graph (node_id (snd (nodes graph ! i))) = Some (snd (nodes graph ! i))"
proof -
  have mem: "nodes graph ! i \<in> set (nodes graph)" using assms(2) by simp
  then have "node_id (snd (nodes graph ! i)) = fst (nodes graph ! i)"
    using assms(1) by (auto simp: wf_graph_def list_all_iff)
  moreover have "map_of (nodes graph) (fst (nodes graph ! i)) = Some (snd (nodes graph ! i))"
    using assms(1) mem by (simp add: wf_graph_def)
  ultimately show ?thesis by (simp add: lookupNode_def)
qed

lemma snapped_node:
  assumes "wf_graph graph" "findNearestNode graph point = n" "n \<noteq> - 1"
  shows "\<exists>i. nearestAt graph point i \<and> lookupNode graph n = Some (snd (nodes graph ! i))
             \<and> node_id (snd (nodes graph ! i)) = n"
proof -
  have "nodes graph \<noteq> []" using assms(2,3) findNearestNode_empty by blast
  then obtain i where i: "nearestAt graph point i"
      "findNearestNode graph point = node_id (snd (nodes graph ! i))"
    using findNearestNode_scan by blast
  then have "i < length (nodes graph)" by (simp add: nearestAt_def)
  then show ?thesis using wf_lookup [OF assms(1)] i assms(2) by auto
qed


lemma nearest_zeroIdGraph:
  "findNearestNode zeroIdGraph \<lparr>lat = 0, lon = 0\<rparr> = 0"
  "findNearestNode zeroIdGraph \<lparr>lat = 0, lon = 180\<rparr> = 1"
  by (simp_all add: findNearestNode_def nodes_zeroIdGraph nearestStep_def
        haversine_same haversine_0_180 haversine_180_0)



section \<open>A start node whose first estimate is zero\<close>

lemma select_single_zero:
  "openSet st = [a] \<Longrightarrow> fScore st a = Some (Num 0) \<Longrightarrow> selectMin st = (- 1, Infinity)"
  by (simp add: selectMin_def selectStep_def)

lemma init_fScore: "fScore (initSearch graph a b) a = Some (heuristicDistance graph a b)"
  by (simp add: initSearch_def Let_def)

lemma init_openSet: "openSet (initSearch graph a b) = [a]"
  by (simp add: initSearch_def Let_def)

lemma nodes_coincidentGraph:
  "nodes coincidentGraph = [(1, \<lparr>node_id = 1, node_lat = 0, node_lon = 0\<rparr>),
                            (2, \<lparr>node_id = 2, node_lat = 0, node_lon = 0\<rparr>),
                            (3, \<lparr>node_id = 2, node_lat = 0, node_lon = 180\<rparr>)]"
  by (simp add: coincidentGraph_def)

lemma nearest_coincidentGraph:
  "findNearestNode coincidentGraph \<lparr>lat = 0, lon = 0\<rparr> = 1"
  "findNearestNode coincidentGraph \<lparr>lat = 0, lon = 180\<rparr> = 2"
  by (simp_all add: findNearestNode_def nodes_coincidentGraph nearestStep_def
        haversine_same haversine_0_180 haversine_180_0)

text \<open>
  C10. When the two coordinates resolve to distinct node ids (neither the sentinel) whose
  nodes are at haversine distance zero, the first \<open>fScore\<close> of the start node is exactly
  0 and \<open>calculateRoute\<close> fails with the no-path error, whatever the edges: the selection
  reads the stored 0 as \<open>Infinity\<close> and leaves the loop.
\<close>

theorem zero_estimate_no_path:
  assumes "findNearestNode graph startCoord = a" and "findNearestNode graph endCoord = b"
    and "a \<noteq> - 1" and "b \<noteq> - 1" and "a \<noteq> b"
    and "lookupNode graph a = Some na" and "lookupNode graph b = Some nb"
    and "haversineDistance (node_lat na) (node_lon na) (node_lat nb) (node_lon nb) = 0"
  shows "fScore (initSearch graph a b) a = Some (Num 0) \<and>
         calculateRoute graph startCoord endCoord = Some (Inl NoPathFound)"
proof -
  have h: "heuristicDistance graph a b = Num 0"
    using assms(6,7,8) by (simp add: heuristicDistance_def)
  have f: "fScore (initSearch graph a b) a = Some (Num 0)"
    by (simp add: init_fScore h)
  have "selectMin (initSearch graph a b) = (- 1, Infinity)"
    using select_single_zero [OF init_openSet f] .
  then have "aStarLoop graph (buildAdjacencyList graph) b (initSearch graph a b)
               = Some (Inl NoPathFound)"
    by (subst aStarLoop.simps) (simp add: init_openSet)
  then show ?thesis using assms(1-5) f
    by (simp add: calculateRoute_def searchPath_def)
qed

theorem zero_estimate_no_path_witness:
  "findNearestNode coincidentGraph \<lparr>lat = 0, lon = 0\<rparr> = 1 \<and>
   findNearestNode coincidentGraph \<lparr>lat = 0, lon = 180\<rparr> = 2 \<and>
   lookupNode coincidentGraph 1 = Some \<lparr>node_id = 1, node_lat = 0, node_lon = 0\<rparr> \<and>
   lookupNode coincidentGraph 2 = Some \<lparr>node_id = 2, node_lat = 0, node_lon = 0\<rparr> \<and>
   haversineDistance 0 0 0 0 = 0 \<and>
   is_walk coincidentGraph 1 (edges coincidentGraph) 2 \<and>
   fScore (initSearch coincidentGraph 1 2) 1 = Some (Num 0) \<and>
   calculateRoute coincidentGraph \<lparr>lat = 0, lon = 0\<rparr> \<lparr>lat = 0, lon = 180\<rparr> = Some (Inl NoPathFound)"
proof -
  have l1: "lookupNode coincidentGraph 1 = Some \<lparr>node_id = 1, node_lat = 0, node_lon = 0\<rparr>"
    and l2: "lookupNode coincidentGraph 2 = Some \<lparr>node_id = 2, node_lat = 0, node_lon = 0\<rparr>"
    by (simp_all add: lookupNode_def nodes_coincidentGraph)
  have w: "is_walk coincidentGraph 1 (edges coincidentGraph) 2"
    by (simp add: coincidentGraph_def)
  from zero_estimate_no_path [OF nearest_coincidentGraph(1) nearest_coincidentGraph(2) _ _ _ l1 l2]
  show ?thesis using nearest_coincidentGraph l1 l2 w by (simp add: haversine_same)
qed

text \<open>
  On a graph that meets its input contract the premise of the last theorem does not
  arise in exact arithmetic: two nodes at haversine distance zero are equally far from
  every query, so both coordinates resolve to the first of them.
\<close>

lemma distinct_snapped_apart:
  assumes wf: "wf_graph graph"
    and a: "findNearestNode graph startCoord = a" and b: "findNearestNode graph endCoord = b"
    and valid: "a \<noteq> - 1" "b \<noteq> - 1"
    and la: "lookupNode graph a = Some na" and lb: "lookupNode graph b = Some nb"
    and zero: "haversineDistance (node_lat na) (node_lon na) (node_lat nb) (node_lon nb) = 0"
  shows "a = b"
proof -
  obtain i where i: "nearestAt graph startCoord i" "lookupNode graph a = Some (snd (nodes graph ! i))"
      "node_id (snd (nodes graph ! i)) = a"
    using snapped_node [OF wf a valid(1)] by blast
  obtain j where j: "nearestAt graph endCoord j" "lookupNode graph b = Some (snd (nodes graph ! j))"
      "node_id (snd (nodes graph ! j)) = b"
    using snapped_node [OF wf b valid(2)] by blast
  have na: "snd (nodes graph ! i) = na" and nb: "snd (nodes graph ! j) = nb"
    using i(2) j(2) la lb by simp_all
  have eq: "distanceTo q na = distanceTo q nb" for q
    unfolding distanceTo_def using zero by (rule haversine_zero_equidistant)
  have "\<not> j < i"
    using i(1) eq [of startCoord] unfolding nearestAt_def na nb
    by (metis less_irrefl na nb)
  moreover have "\<not> i < j"
    using j(1) eq [of endCoord] unfolding nearestAt_def na nb
    by (metis less_irrefl na nb)
  ultimately have "i = j" by simp
  then show ?thesis using i(3) j(3) by simp
qed

section \<open>The no-path failure\<close>

text \<open>
  A start node without outgoing edges that differs from the end node: the first pass of
  the loop leaves the open set empty, or the selection already fails, and the call ends
  with the no-path error.
\<close>

lemma selectMin_single:
  "openSet st = [a] \<Longrightarrow>
   selectMin st = (if orInfinity (fScore st a) = Infinity then (- 1, Infinity) else (a, orInfinity (fScore st a)))"
  by (cases "orInfinity (fScore st a)") (simp_all add: selectMin_def selectStep_def)

lemma no_outgoing_no_path:
  assumes "findNearestNode graph startCoord = a" and "findNearestNode graph endCoord = b"
    and "a \<noteq> - 1" and "b \<noteq> - 1" and "a \<noteq> b"
    and "filter (\<lambda>e. edge_from e = a) (edges graph) = []"
  shows "calculateRoute graph startCoord endCoord = Some (Inl NoPathFound)"
proof -
  let ?st = "initSearch graph a b"
  let ?adj = "buildAdjacencyList graph"
  have nb: "neighborsOf ?adj a = []" using assms(6) by (simp add: neighborsOf_build)
  have ex: "openSet (expand graph ?adj b a ?st) = []"
    by (simp add: expand_def nb init_openSet)
  have 2: "aStarLoop graph ?adj b (expand graph ?adj b a ?st) = Some (Inl NoPathFound)"
    by (subst aStarLoop.simps) (simp add: ex)
  have "aStarLoop graph ?adj b ?st = Some (Inl NoPathFound)"
    using assms(3,5) 2
    by (subst aStarLoop.simps) (simp add: init_openSet selectMin_single [OF init_openSet])
  then show ?thesis using assms(1-5) by (simp add: calculateRoute_def searchPath_def)
qed

lemma nodes_zeroWeightGraph:
  "nodes zeroWeightGraph = [(1, \<lparr>node_id = 1, node_lat = 0, node_lon = 0\<rparr>),
                            (2, \<lparr>node_id = 2, node_lat = 0, node_lon = 180\<rparr>)]"
  by (simp add: zeroWeightGraph_def)

lemma nearest_zeroWeightGraph:
  "findNearestNode zeroWeightGraph \<lparr>lat = 0, lon = 0\<rparr> = 1"
  "findNearestNode zeroWeightGraph \<lparr>lat = 0, lon = 180\<rparr> = 2"
  by (simp_all add: findNearestNode_def nodes_zeroWeightGraph nearestStep_def
        haversine_same haversine_0_180 haversine_180_0)

lemma neighbors_zeroWeightGraph: "neighborsOf (buildAdjacencyList zeroWeightGraph) 1 = [(2, 0)]"
  by (simp add: neighborsOf_build zeroWeightGraph_def edgeWeight_def)

lemma heuristic_zeroWeightGraph:
  "heuristicDistance zeroWeightGraph 1 2 = Num (6371 * pi / 50 * 3600)"
  "heuristicDistance zeroWeightGraph 2 2 = Num 0"
  by (simp_all add: heuristicDistance_def lookupNode_def nodes_zeroWeightGraph
        haversine_0_180 haversine_same)

lemma expand_zeroWeightGraph:
  "openSet (expand zeroWeightGraph (buildAdjacencyList zeroWeightGraph) 2 1 (initSearch zeroWeightGraph 1 2)) = [2]"
  "fScore (expand zeroWeightGraph (buildAdjacencyList zeroWeightGraph) 2 1 (initSearch zeroWeightGraph 1 2)) 2 = Some (Num 0)"
  "gScore (expand zeroWeightGraph (buildAdjacencyList zeroWeightGraph) 2 1 (initSearch zeroWeightGraph 1 2)) 2 = Some (Num 0)"
  by (simp_all add: step_defs neighbors_zeroWeightGraph heuristic_zeroWeightGraph nodes_zeroWeightGraph)

lemma select_zeroWeightGraph:
  "selectMin (initSearch zeroWeightGraph 1 2) = (1, Num (6371 * pi / 50 * 3600))"
  by (simp add: step_defs heuristic_zeroWeightGraph)

lemma search_zeroWeightGraph: "searchPath zeroWeightGraph 1 2 = Some (Inl NoPathFound)"
proof -
  let ?adj = "buildAdjacencyList zeroWeightGraph"
  let ?st = "expand zeroWeightGraph ?adj 2 1 (initSearch zeroWeightGraph 1 2)"
  have "aStarLoop zeroWeightGraph ?adj 2 ?st = Some (Inl NoPathFound)"
    by (subst aStarLoop.simps)
       (simp add: select_single_zero [OF expand_zeroWeightGraph(1,2)] expand_zeroWeightGraph)
  then have "aStarLoop zeroWeightGraph ?adj 2 (initSearch zeroWeightGraph 1 2) = Some (Inl NoPathFound)"
    by (subst aStarLoop.simps) (simp add: select_zeroWeightGraph init_openSet)
  then show ?thesis by (simp add: searchPath_def)
qed

text \<open>
  C5, at a failing input. The start coordinate resolves to node 1 and the end coordinate
  to node 2, and the edge from 1 to 2 (travel time 0, length 0) is a path between them.
  The first pass selects node 1 and puts node 2, the goal, into the open set with the
  \<open>fScore\<close> 0. In the second pass the open set is not empty and its only node has a
  finite \<open>fScore\<close>, yet the call fails with the no-path error: the selection reads the
  stored 0 as \<open>Infinity\<close>.
\<close>

theorem zero_weight_edge_no_path:
  "findNearestNode zeroWeightGraph \<lparr>lat = 0, lon = 0\<rparr> = 1 \<and>
   findNearestNode zeroWeightGraph \<lparr>lat = 0, lon = 180\<rparr> = 2 \<and>
   is_walk zeroWeightGraph 1 (edges zeroWeightGraph) 2 \<and>
   selectMin (initSearch zeroWeightGraph 1 2) = (1, Num (6371 * pi / 50 * 3600)) \<and>
   openSet (expand zeroWeightGraph (buildAdjacencyList zeroWeightGraph) 2 1
              (initSearch zeroWeightGraph 1 2)) = [2] \<and>
   fScore (expand zeroWeightGraph (buildAdjacencyList zeroWeightGraph) 2 1
              (initSearch zeroWeightGraph 1 2)) 2 = Some (Num 0) \<and>
   calculateRoute zeroWeightGraph \<lparr>lat = 0, lon = 0\<rparr> \<lparr>lat = 0, lon = 180\<rparr>
     = Some (Inl NoPathFound)"
proof -
  have "is_walk zeroWeightGraph 1 (edges zeroWeightGraph) 2"
    by (simp add: zeroWeightGraph_def)
  then show ?thesis
    using select_zeroWeightGraph
    by (simp add: calculateRoute_def nearest_zeroWeightGraph search_zeroWeightGraph
        expand_zeroWeightGraph)
qed

section \<open>Termination of the search\<close>

subsection \<open>Order on scores and the selection\<close>

lemma js_less_irrefl [simp]: "\<not> js_less a a"
  by (cases a) simp_all

lemma js_less_trans: "js_less a b \<Longrightarrow> js_less b c \<Longrightarrow> js_less a c"
  by (cases a; cases b; cases c) simp_all

lemma selectStep_pair:
  "selectStep st (c, m) x =
     (if js_less (orInfinity (fScore st x)) m then (x, orInfinity (fScore st x)) else (c, m))"
  by (simp add: selectStep_def Let_def)

lemma select_scan:
  "foldl (selectStep st) (c, m) xs = (c', m') \<Longrightarrow>
     ((c' = c \<and> m' = m) \<or> (c' \<in> set xs \<and> m' = orInfinity (fScore st c') \<and> js_less m' m)) \<and>
     (\<forall>x\<in>set xs. \<not> js_less (orInfinity (fScore st x)) m')"
proof (induction xs arbitrary: c m)
  case Nil
  then show ?case by simp
next
  case (Cons x xs)
  let ?f = "orInfinity (fScore st x)"
  show ?case
  proof (cases "js_less ?f m")
    case True
    then have "foldl (selectStep st) (x, ?f) xs = (c', m')"
      using Cons.prems by (simp add: selectStep_pair)
    from Cons.IH [OF this] True show ?thesis
      by (auto intro: js_less_trans)
  next
    case False
    then have "foldl (selectStep st) (c, m) xs = (c', m')"
      using Cons.prems by (simp add: selectStep_pair)
    from Cons.IH [OF this] False show ?thesis
      by (auto dest: js_less_trans)
  qed
qed

lemma selectMin_props:
  assumes "snd (selectMin st) \<noteq> Infinity"
  shows "fst (selectMin st) \<in> set (openSet st)"
    and "orInfinity (fScore st (fst (selectMin st))) = snd (selectMin st)"
    and "\<forall>x\<in>set (openSet st). \<not> js_less (orInfinity (fScore st x)) (snd (selectMin st))"
proof -
  obtain c m where cm: "selectMin st = (c, m)" by (cases "selectMin st")
  then have "foldl (selectStep st) (- 1, Infinity) (openSet st) = (c, m)"
    by (simp add: selectMin_def)
  from select_scan [OF this] assms cm
  show "fst (selectMin st) \<in> set (openSet st)"
    and "orInfinity (fScore st (fst (selectMin st))) = snd (selectMin st)"
    and "\<forall>x\<in>set (openSet st). \<not> js_less (orInfinity (fScore st x)) (snd (selectMin st))"
    by auto
qed

subsection \<open>The two outcomes of a relaxation\<close>

lemma relax_eq:
  "relax graph endNode currentNode st neighbor =
     (if fst neighbor \<in> closedSet st then st
      else if fst neighbor \<in> set (openSet st) \<and>
              \<not> js_less (js_add (orZero (gScore st currentNode)) (Num (snd neighbor)))
                    (orInfinity (gScore st (fst neighbor))) then st
      else record_path graph endNode currentNode st neighbor)"
  by (simp add: relax_def record_path_def Let_def js_ge_def)

lemma relax_cases:
  "relax graph endNode currentNode st neighbor = st \<or>
   (fst neighbor \<notin> closedSet st \<and>
    relax graph endNode currentNode st neighbor = record_path graph endNode currentNode st neighbor)"
  by (simp add: relax_eq)

lemma record_path_simps [simp]:
  "closedSet (record_path graph endNode u st nb) = closedSet st"
  "set (openSet (record_path graph endNode u st nb)) = insert (fst nb) (set (openSet st))"
  "previous (record_path graph endNode u st nb) = (previous st)(fst nb \<mapsto> u)"
  by (auto simp: record_path_def)


lemma closedSet_relax [simp]: "closedSet (relax graph endNode u st nb) = closedSet st"
  using relax_cases [of graph endNode u st nb] by auto

subsection \<open>The walk back along the predecessors ends\<close>





subsection \<open>Every pass closes one more node\<close>





lemma foldl_initNode:
  "openSet (foldl initNode st xs) = openSet st"
  "closedSet (foldl initNode st xs) = closedSet st"
  "previous st n = None \<Longrightarrow> previous (foldl initNode st xs) n = None"
  by (induction xs arbitrary: st) (simp_all add: initNode_def)

lemma init_fields:
  "openSet (initSearch graph s t) = [s]"
  "closedSet (initSearch graph s t) = {}"
  "gScore (initSearch graph s t) s = Some (Num 0)"
  "fScore (initSearch graph s t) s = Some (heuristicDistance graph s t)"
  "previous (initSearch graph s t) n = None"
  by (simp_all add: initSearch_def Let_def foldl_initNode)




section \<open>Optimality of the route\<close>

subsection \<open>Scores and walks\<close>

lemma js_le_Num [simp]: "js_le (Num a) (Num b) = (a \<le> b)"
  by (auto simp: js_le_def)

lemma js_le_Infinity [simp]: "js_le a Infinity"
  by (simp add: js_le_def)

lemma js_le_Infinity_left [simp]: "js_le Infinity a = (a = Infinity)"
  by (cases a) (simp_all add: js_le_def)

lemma js_le_refl [simp]: "js_le a a"
  by (simp add: js_le_def)




lemma js_add_eq_Infinity [simp]: "(js_add (Num x) a = Infinity) = (a = Infinity)"
  by (cases a) simp_all

lemma is_walk_append:
  "is_walk graph a (es1 @ es2) b = (\<exists>m. is_walk graph a es1 m \<and> is_walk graph m es2 b)"
  by (induction es1 arbitrary: a) auto

lemma is_walk_snoc:
  "is_walk graph a (es @ [e]) b =
     (is_walk graph a es (edge_from e) \<and> e \<in> set (edges graph) \<and> edge_to e = b)"
  by (auto simp: is_walk_append)

lemma is_walk_edges: "is_walk graph a es b \<Longrightarrow> set es \<subseteq> set (edges graph)"
  by (induction es arbitrary: a) auto

lemma walk_to_cases:
  "is_walk graph a es b \<Longrightarrow> e \<in> set es \<Longrightarrow> edge_to e = b \<or> edge_to e \<in> edge_from ` set es"
proof (induction es arbitrary: a)
  case Nil
  then show ?case by simp
next
  case (Cons x xs)
  have w: "is_walk graph (edge_to x) xs b" using Cons.prems(1) by simp
  show ?case
  proof (cases "e = x")
    case True
    show ?thesis
    proof (cases xs)
      case Nil
      then have "edge_to x = b" using w by simp
      then show ?thesis using True by simp
    next
      case (Cons y ys)
      then have "edge_from y = edge_to x" using w by simp
      then have "edge_to e \<in> edge_from ` set (x # xs)"
        unfolding True Cons by (metis image_eqI list.set_intros(1,2))
      then show ?thesis by blast
    qed
  next
    case False
    then have "e \<in> set xs" using Cons.prems(2) by simp
    from Cons.IH [OF w this] show ?thesis by auto
  qed
qed

lemma walkWeight_simps [simp]:
  "walkWeight [] = 0"
  "walkWeight (e # es) = edgeWeight e + walkWeight es"
  "walkWeight (es1 @ es2) = walkWeight es1 + walkWeight es2"
  by (simp_all add: walkWeight_def)



lemma known_record [simp]:
  "known (record_path graph endNode u st (v, w)) = insert v (known st)"
  by (simp add: known_def)



lemma js_add_zero [simp]: "js_add (Num 0) a = a"
  by (cases a) simp_all

subsection \<open>The invariant is kept by a relaxation\<close>










subsection \<open>The invariant is kept by a pass of the loop\<close>




lemma gv_pop [simp]: "gv (st\<lparr>openSet := os, closedSet := cs\<rparr>) n = gv st n"
  by (simp add: gv_def)

lemma fv_pop [simp]: "fv graph t (st\<lparr>openSet := os, closedSet := cs\<rparr>) n = fv graph t st n"
  by (simp add: fv_def)



lemma closedSet_foldl_relax [simp]:
  "closedSet (foldl (relax graph t u) st nbs) = closedSet st"
  by (induction nbs arbitrary: st) simp_all


subsection \<open>The goal is selected with its least weight\<close>

lemma reconstruct_walk:
  assumes root: "previous st s = None"
  shows "is_walk graph s es n \<Longrightarrow>
         \<forall>e\<in>set es. previous st (edge_to e) = Some (edge_from e) \<and> edge_from e \<noteq> 0 \<Longrightarrow>
         reconstructPath st (Some n) acc = Some (s # map edge_to es @ acc)"
proof (induction es arbitrary: n acc rule: rev_induct)
  case Nil
  then have "n = s" by simp
  then show ?case
    by (subst reconstructPath.simps)
       (simp add: previousOf_def root, subst reconstructPath.simps, simp)
next
  case (snoc e es)
  have w: "is_walk graph s es (edge_from e)" and n: "edge_to e = n"
    using snoc.prems(1) by (simp_all add: is_walk_snoc)
  have p: "previousOf st n = Some (edge_from e)"
    using snoc.prems(2) n by (auto simp: previousOf_def)
  have "reconstructPath st (Some (edge_from e)) (n # acc) = Some (s # map edge_to es @ n # acc)"
    using snoc.prems(2) by (intro snoc.IH [OF w]) simp
  then show ?case
    by (subst reconstructPath.simps) (simp add: p n)
qed









lemma routeCoords_onNodes:
  "onNodes graph path \<Longrightarrow> list_all2 (coordinateOf graph) path (routeCoords graph path)"
  by (induction path) (auto simp: onNodes_def routeCoords_def coordinateOf_def)


subsection \<open>An admissible estimate is not enough\<close>

lemma timedEdge_simps [simp]:
  "edge_from (timedEdge u v x) = u" "edge_to (timedEdge u v x) = v"
  "edgeWeight (timedEdge u v x) = (if 0 < x then x else 1)"
  by (simp_all add: timedEdge_def edgeWeight_def)






lemma estimate_bounds:
  "458712 * pi \<noteq> 0" "1 + 458712 * pi \<noteq> 0" "\<not> 1 + 458712 * pi < 4"
  "\<not> 10000004 < 1 + 458712 * pi" "458712 * pi \<le> 10000000"
  using pi_ge_two pi_less_4 by simp_all








subsection \<open>A graph with a consistent estimate\<close>










subsection \<open>A weight of zero\<close>

lemma sin_quarter_sq: "sin (pi / 4) * sin (pi / 4) = 1 / 2"
  using sin_half_sq [of "pi / 2"] by simp

lemma haversine_a_quarter: "haversine_a 0 90 0 0 = 1 / 2" "haversine_a 0 0 0 90 = 1 / 2"
  "haversine_a 0 180 0 90 = 1 / 2" "haversine_a 0 90 0 180 = 1 / 2"
  by (simp_all add: haversine_a_def toRadians_def sin_quarter_sq)

lemma haversine_quarter:
  "haversineDistance 0 90 0 0 = 6371 * pi / 2" "haversineDistance 0 0 0 90 = 6371 * pi / 2"
  "haversineDistance 0 180 0 90 = 6371 * pi / 2" "haversineDistance 0 90 0 180 = 6371 * pi / 2"
  using arcsin_one_over_sqrt_2
  by (simp_all add: haversineDistance_arcsin haversine_a_quarter real_sqrt_divide)

lemma freeEdge_simps [simp]:
  "edge_from (freeEdge u v) = u" "edge_to (freeEdge u v) = v" "edgeWeight (freeEdge u v) = 0"
  by (simp_all add: freeEdge_def edgeWeight_def)

lemma nodes_freeRideGraph:
  "nodes freeRideGraph = [(1, \<lparr>node_id = 1, node_lat = 0, node_lon = 0\<rparr>),
               (2, \<lparr>node_id = 2, node_lat = 0, node_lon = 90\<rparr>),
               (3, \<lparr>node_id = 3, node_lat = 0, node_lon = 90\<rparr>),
               (4, \<lparr>node_id = 4, node_lat = 0, node_lon = 180\<rparr>)]"
  by (simp add: freeRideGraph_def)

lemma edges_freeRideGraph:
  "edges freeRideGraph = [freeEdge 2 4, timedEdge 2 3 1, timedEdge 3 4 1, timedEdge 4 1 2000000]"
  by (simp add: freeRideGraph_def)

lemma nearest_freeRideGraph:
  "findNearestNode freeRideGraph \<lparr>lat = 0, lon = 90\<rparr> = 2"
  "findNearestNode freeRideGraph \<lparr>lat = 0, lon = 0\<rparr> = 1"
  by (simp_all add: findNearestNode_def nodes_freeRideGraph nearestStep_def
        haversine_same haversine_0_180 haversine_quarter)

lemma heuristic_freeRideGraph:
  "heuristicDistance freeRideGraph 1 1 = Num 0"
  "heuristicDistance freeRideGraph 2 1 = Num (229356 * pi)"
  "heuristicDistance freeRideGraph 3 1 = Num (229356 * pi)"
  "heuristicDistance freeRideGraph 4 1 = Num (458712 * pi)"
  by (simp_all add: heuristicDistance_def lookupNode_def nodes_freeRideGraph
        haversine_same haversine_180_0 haversine_quarter)

lemma neighbors_freeRideGraph:
  "neighborsOf (buildAdjacencyList freeRideGraph) 2 = [(4, 0), (3, 1)]"
  "neighborsOf (buildAdjacencyList freeRideGraph) 3 = [(4, 1)]"
  "neighborsOf (buildAdjacencyList freeRideGraph) 4 = [(1, 2000000)]"
  by (simp_all add: neighborsOf_build edges_freeRideGraph)

lemma quarter_bounds:
  "229356 * pi \<noteq> 0" "1 + 229356 * pi \<noteq> 0" "1 + 229356 * pi < 458712 * pi"
  "2 + 458712 * pi \<noteq> 0"
  using pi_ge_two by simp_all

lemma search_freeRideGraph: "searchPath freeRideGraph 2 1 = Some (Inr [2, 3, 4, 1])"
proof -
  note facts = step_defs neighbors_freeRideGraph heuristic_freeRideGraph estimate_bounds
    quarter_bounds nodes_freeRideGraph
  show ?thesis
    unfolding searchPath_def
    apply (subst aStarLoop.simps, simp add: facts)
    apply (subst aStarLoop.simps, simp add: facts)
    apply (subst aStarLoop.simps, simp add: facts)
    apply (subst aStarLoop.simps, simp add: facts)
    apply (subst reconstructPath.simps, simp add: step_defs)
    apply (subst reconstructPath.simps, simp add: step_defs)
    apply (subst reconstructPath.simps, simp add: step_defs)
    apply (subst reconstructPath.simps, simp add: step_defs)
    apply (subst reconstructPath.simps, simp add: step_defs)
    done
qed

lemma consistent_freeRideGraph: "consistent freeRideGraph 1"
  using pi_ge_two pi_less_4
  by (simp add: consistent_def edges_freeRideGraph heuristic_freeRideGraph)

text \<open>
  With an edge of weight 0 a consistent estimate is not enough either. Node 4 enters the
  open set with the \<open>gScore\<close> 0 over the free edge; when node 3 is expanded, the test
  of the tentative score 2 reads the stored 0 through \<open>|| Infinity\<close>, and the worse
  path through node 3 replaces the free one. The route found weighs 2000002, the walk
  over the free edge 2000000.
\<close>

lemma zero_weight_not_optimal:
  "consistent freeRideGraph 1 \<and> nonzero_sources freeRideGraph \<and>
   list_all (\<lambda>e. 0 \<le> edgeWeight e) (edges freeRideGraph) \<and>
   findNearestNode freeRideGraph \<lparr>lat = 0, lon = 90\<rparr> = 2 \<and>
   findNearestNode freeRideGraph \<lparr>lat = 0, lon = 0\<rparr> = 1 \<and>
   searchPath freeRideGraph 2 1 = Some (Inr [2, 3, 4, 1]) \<and>
   is_walk freeRideGraph 2 [timedEdge 2 3 1, timedEdge 3 4 1, timedEdge 4 1 2000000] 1 \<and>
   walkWeight [timedEdge 2 3 1, timedEdge 3 4 1, timedEdge 4 1 2000000] = 2000002 \<and>
   is_walk freeRideGraph 2 [freeEdge 2 4, timedEdge 4 1 2000000] 1 \<and>
   walkWeight [freeEdge 2 4, timedEdge 4 1 2000000] = 2000000"
  using consistent_freeRideGraph nearest_freeRideGraph search_freeRideGraph
  by (simp add: nonzero_sources_def edges_freeRideGraph)

section \<open>The route follows a walk of the graph\<close>

lemma links_record_other:
  assumes tr: "links graph s st n es" and v: "fst nb \<notin> closedSet st" and n: "n \<noteq> fst nb"
  shows "links graph s (record_path graph endNode u st nb) n es"
proof -
  have w: "is_walk graph s es n" and cl: "\<forall>e\<in>set es. edge_from e \<in> closedSet st"
    and pr: "\<forall>e\<in>set es. previous st (edge_to e) = Some (edge_from e)"
    using tr by (auto simp: links_def)
  have "\<forall>e\<in>set es. edge_to e \<noteq> fst nb"
  proof
    fix e assume e: "e \<in> set es"
    from walk_to_cases [OF w e] show "edge_to e \<noteq> fst nb"
      using n v cl by auto
  qed
  then show ?thesis using w cl pr by (simp add: links_def)
qed

lemma links_record_new:
  assumes tr: "links graph s st u es" and v: "edge_to e \<notin> closedSet st" and u: "u \<in> closedSet st"
    and e: "e \<in> set (edges graph)" "edge_from e = u"
  shows "links graph s (record_path graph endNode u st (edge_to e, w)) (edge_to e) (es @ [e])"
proof -
  have w: "is_walk graph s es u" and cl: "\<forall>e\<in>set es. edge_from e \<in> closedSet st"
    and pr: "\<forall>e\<in>set es. previous st (edge_to e) = Some (edge_from e)"
    using tr by (auto simp: links_def)
  have "\<forall>e'\<in>set es. edge_to e' \<noteq> edge_to e"
  proof
    fix e' assume e': "e' \<in> set es"
    from walk_to_cases [OF w e'] show "edge_to e' \<noteq> edge_to e"
      using u v cl by auto
  qed
  then show ?thesis using w cl pr e u
    by (simp add: links_def is_walk_snoc)
qed

lemma fScore_record:
  "fScore (record_path graph endNode u st nb) n =
     (if n = fst nb
      then Some (js_add (js_add (orZero (gScore st u)) (Num (snd nb)))
                   (heuristicDistance graph (fst nb) endNode))
      else fScore st n)"
  by (simp add: record_path_def)

lemma known_record_path: "known (record_path graph endNode u st nb) = insert (fst nb) (known st)"
  by (simp add: known_def)

lemma path_inv_relax:
  assumes inv: "path_inv graph s t st" and u: "u \<in> closedSet st"
    and e: "e \<in> set (edges graph)" "edge_from e = u"
  shows "path_inv graph s t (relax graph t u st (edge_to e, edgeWeight e))"
proof -
  let ?nb = "(edge_to e, edgeWeight e)"
  from relax_cases [of graph t u st ?nb] show ?thesis
  proof
    assume "relax graph t u st ?nb = st"
    then show ?thesis using inv by simp
  next
    assume a: "fst ?nb \<notin> closedSet st \<and> relax graph t u st ?nb = record_path graph t u st ?nb"
    let ?st = "record_path graph t u st ?nb"
    have v: "edge_to e \<notin> closedSet st" using a by simp
    have s_cl: "s \<in> closedSet st" using inv u by (auto simp: path_inv_def)
    have sv: "s \<noteq> edge_to e" using s_cl v by auto
    have uk: "u \<in> known st" using u by (simp add: known_def)
    have c1: "s \<in> closedSet ?st" using s_cl by simp
    have c2: "previous ?st s = None" using inv sv by (simp add: path_inv_def)
    have c3: "\<forall>n\<in>known ?st. \<exists>es. links graph s ?st n es"
    proof
      fix n assume n: "n \<in> known ?st"
      show "\<exists>es. links graph s ?st n es"
      proof (cases "n = edge_to e")
        case True
        obtain es where "links graph s st u es" using inv uk by (auto simp: path_inv_def)
        from links_record_new [OF this v u e] show ?thesis using True by blast
      next
        case False
        then have "n \<in> known st" using n by (simp add: known_record_path)
        then obtain es where "links graph s st n es" using inv by (auto simp: path_inv_def)
        from links_record_other [OF this, of ?nb] v False show ?thesis by auto
      qed
    qed
    have c4: "\<forall>n\<in>known ?st. \<exists>x. fScore ?st n = Some (js_add x (heuristicDistance graph n t))"
      using inv by (auto simp: path_inv_def known_record_path fScore_record)
    have c5: "\<forall>c\<in>closedSet ?st. lookupNode graph c \<noteq> None"
      using inv by (simp add: path_inv_def)
    show ?thesis using a c1 c2 c3 c4 c5 by (simp add: path_inv_def)
  qed
qed

lemma path_inv_foldl:
  assumes "path_inv graph s t st" and "u \<in> closedSet st"
    and "set es \<subseteq> set (edges graph)" and "\<forall>e\<in>set es. edge_from e = u"
  shows "path_inv graph s t (foldl (relax graph t u) st (map (\<lambda>e. (edge_to e, edgeWeight e)) es))"
  using assms
proof (induction es arbitrary: st)
  case Nil
  then show ?case by simp
next
  case (Cons e es)
  let ?st = "relax graph t u st (edge_to e, edgeWeight e)"
  have 1: "path_inv graph s t ?st" using Cons.prems by (intro path_inv_relax) auto
  have 2: "u \<in> closedSet ?st" using Cons.prems by simp
  show ?case using Cons.IH [OF 1 2] Cons.prems by simp
qed

lemma js_add_finite: "js_add x h \<noteq> Infinity \<Longrightarrow> h \<noteq> Infinity"
  by (cases x; cases h) simp_all

lemma selected_on_node:
  assumes inv: "path_inv graph s t st" and sel: "snd (selectMin st) \<noteq> Infinity"
  shows "lookupNode graph (fst (selectMin st)) \<noteq> None"
    and "lookupNode graph t \<noteq> None"
proof -
  let ?u = "fst (selectMin st)"
  note P = selectMin_props [OF sel]
  have "?u \<in> known st" using P(1) by (simp add: known_def)
  then obtain x where f: "fScore st ?u = Some (js_add x (heuristicDistance graph ?u t))"
    using inv by (auto simp: path_inv_def)
  have "orInfinity (Some (js_add x (heuristicDistance graph ?u t))) \<noteq> Infinity"
    using P(2) sel f by simp
  then have "js_add x (heuristicDistance graph ?u t) \<noteq> Infinity"
    by (cases "js_add x (heuristicDistance graph ?u t)") auto
  then have h: "heuristicDistance graph ?u t \<noteq> Infinity" by (rule js_add_finite)
  then show "lookupNode graph ?u \<noteq> None"
    by (cases "lookupNode graph ?u") (simp_all add: heuristicDistance_def)
  from h show "lookupNode graph t \<noteq> None"
    by (cases "lookupNode graph ?u"; cases "lookupNode graph t") (simp_all add: heuristicDistance_def)
qed

lemma links_pop:
  "links graph s st n es \<Longrightarrow> closedSet st \<subseteq> cs \<Longrightarrow>
   links graph s (st\<lparr>openSet := os, closedSet := cs\<rparr>) n es"
  by (auto simp: links_def)

lemma path_inv_expand:
  assumes inv: "path_inv graph s t st" and sel: "snd (selectMin st) \<noteq> Infinity"
  shows "path_inv graph s t (expand graph (buildAdjacencyList graph) t (fst (selectMin st)) st)"
proof -
  let ?u = "fst (selectMin st)"
  let ?st0 = "st\<lparr>openSet := removeAll ?u (openSet st), closedSet := insert ?u (closedSet st)\<rparr>"
  let ?es = "filter (\<lambda>e. edge_from e = ?u) (edges graph)"
  note P = selectMin_props [OF sel]
  have k: "known ?st0 = known st" using P(1) by (auto simp: known_def)
  have "\<forall>n\<in>known ?st0. \<exists>es. links graph s ?st0 n es"
    unfolding k
  proof
    fix n assume "n \<in> known st"
    then obtain es where "links graph s st n es" using inv by (auto simp: path_inv_def)
    then have "links graph s ?st0 n es" by (rule links_pop) auto
    then show "\<exists>es. links graph s ?st0 n es" by blast
  qed
  moreover have "\<forall>n\<in>known ?st0. \<exists>x. fScore ?st0 n = Some (js_add x (heuristicDistance graph n t))"
    unfolding k using inv by (simp add: path_inv_def)
  moreover have "s \<in> closedSet ?st0" using inv P(1) by (auto simp: path_inv_def)
  moreover have "\<forall>c\<in>closedSet ?st0. lookupNode graph c \<noteq> None"
    using inv selected_on_node(1) [OF inv sel] by (auto simp: path_inv_def)
  ultimately have 0: "path_inv graph s t ?st0" using inv by (simp add: path_inv_def)
  have "path_inv graph s t (foldl (relax graph t ?u) ?st0 (map (\<lambda>e. (edge_to e, edgeWeight e)) ?es))"
    by (intro path_inv_foldl [OF 0]) auto
  then show ?thesis by (simp add: expand_def neighborsOf_build)
qed

lemma path_inv_init: "path_inv graph s t (initSearch graph s t)"
proof -
  have "links graph s (initSearch graph s t) s []" by (simp add: links_def)
  then have "\<exists>es. links graph s (initSearch graph s t) s es" by blast
  moreover have "\<exists>x. heuristicDistance graph s t = js_add x (heuristicDistance graph s t)"
    by (rule exI [of _ "Num 0"]) simp
  ultimately show ?thesis
    by (simp add: path_inv_def known_def init_fields)
qed

lemma goal_path:
  assumes inv: "path_inv graph s t st"
    and sel: "snd (selectMin st) \<noteq> Infinity" and goal: "fst (selectMin st) = t"
    and st: "s \<noteq> t" and nz: "nonzero_sources graph"
  shows "\<exists>es. reconstructPath st (Some t) [] = Some (s # map edge_to es) \<and>
              is_walk graph s es t \<and> onNodes graph (s # map edge_to es)"
proof -
  note P = selectMin_props [OF sel, unfolded goal]
  have tk: "t \<in> known st" using P(1) by (simp add: known_def)
  obtain es where "links graph s st t es" using inv tk by (auto simp: path_inv_def)
  then have w: "is_walk graph s es t" and cl: "\<forall>e\<in>set es. edge_from e \<in> closedSet st"
    and pr: "\<forall>e\<in>set es. previous st (edge_to e) = Some (edge_from e)"
    by (auto simp: links_def)
  have root: "previous st s = None" using inv by (simp add: path_inv_def)
  have "\<forall>e\<in>set es. edge_from e \<noteq> 0"
    using is_walk_edges [OF w] nz by (auto simp: nonzero_sources_def)
  then have rec: "reconstructPath st (Some t) [] = Some (s # map edge_to es)"
    using reconstruct_walk [OF root w, of "[]"] pr by simp
  have s_cl: "s \<in> closedSet st" using inv P(1) st by (auto simp: path_inv_def)
  have on_cl: "\<forall>c\<in>closedSet st. lookupNode graph c \<noteq> None" using inv by (simp add: path_inv_def)
  have lt: "lookupNode graph t \<noteq> None" using selected_on_node(2) [OF inv sel] .
  have "lookupNode graph (edge_to e) \<noteq> None" if e: "e \<in> set es" for e
    using walk_to_cases [OF w e] cl on_cl lt by fastforce
  then have "onNodes graph (s # map edge_to es)"
    using on_cl s_cl by (simp add: onNodes_def list_all_iff)
  then show ?thesis using rec w by blast
qed

lemma loop_path:
  assumes run: "aStarLoop graph adj t st = Some r"
    and adj: "adj = buildAdjacencyList graph"
    and inv: "path_inv graph s t st"
    and hyps: "nonzero_sources graph" "s \<noteq> t"
    and res: "r = Inr path"
  shows "\<exists>es. path = s # map edge_to es \<and> is_walk graph s es t \<and> onNodes graph path"
proof -
  let ?P = "\<lambda>graph adj t st r.
     adj = buildAdjacencyList graph \<longrightarrow> path_inv graph s t st \<longrightarrow>
     nonzero_sources graph \<longrightarrow> s \<noteq> t \<longrightarrow>
     (\<forall>path. r = Inr path \<longrightarrow>
        (\<exists>es. path = s # map edge_to es \<and> is_walk graph s es t \<and> onNodes graph path))"
  have "?P graph adj t st r"
  proof (rule aStarLoop.raw_induct [OF _ run])
    fix loop graph adj t st r
    assume IH: "\<And>graph adj t st r. loop graph adj t st = Some r \<Longrightarrow> ?P graph adj t st r"
      and eq: "(if openSet st = [] then Some (Inl NoPathFound)
                else if fst (selectMin st) = - 1 \<or> snd (selectMin st) = Infinity
                  then Some (Inl NoPathFound)
                else if fst (selectMin st) = t
                  then map_option Inr (reconstructPath st (Some t) [])
                else loop graph adj t (expand graph adj t (fst (selectMin st)) st)) = Some r"
    show "?P graph adj t st r"
    proof (intro impI allI)
      fix path
      assume adj: "adj = buildAdjacencyList graph"
        and inv: "path_inv graph s t st"
        and nz: "nonzero_sources graph" and st: "s \<noteq> t" and res: "r = Inr path"
      show "\<exists>es. path = s # map edge_to es \<and> is_walk graph s es t \<and> onNodes graph path"
      proof (cases "openSet st = [] \<or> fst (selectMin st) = - 1 \<or> snd (selectMin st) = Infinity")
        case True
        then show ?thesis using eq res by (auto split: if_splits)
      next
        case False
        then have sel: "snd (selectMin st) \<noteq> Infinity" by simp
        show ?thesis
        proof (cases "fst (selectMin st) = t")
          case True
          from goal_path [OF inv sel True st nz] obtain es where
            "reconstructPath st (Some t) [] = Some (s # map edge_to es)" "is_walk graph s es t"
            "onNodes graph (s # map edge_to es)"
            by blast
          then show ?thesis using eq res False True by auto
        next
          case neq: False
          let ?st' = "expand graph adj t (fst (selectMin st)) st"
          have run': "loop graph adj t ?st' = Some r" using eq False neq by simp
          have inv': "path_inv graph s t ?st'"
            unfolding adj using path_inv_expand [OF inv sel] .
          from IH [OF run'] adj inv' nz st res show ?thesis by blast
        qed
      qed
    qed
  qed
  then show ?thesis using adj inv hyps res by blast
qed

text \<open>
  When no edge leaves a node with id 0, every route that \<open>calculateRoute\<close> returns is,
  entry by entry, the coordinates of the nodes of a walk from the resolved start node to
  the resolved end node; this holds for all weights and estimates.
\<close>

lemma route_follows_walk:
  assumes nz: "nonzero_sources graph"
    and ok: "calculateRoute graph startCoord endCoord = Some (Inr route)"
  shows "\<exists>es. is_walk graph (findNearestNode graph startCoord) es (findNearestNode graph endCoord) \<and>
              list_all2 (coordinateOf graph) (findNearestNode graph startCoord # map edge_to es) route"
proof -
  let ?s = "findNearestNode graph startCoord" and ?t = "findNearestNode graph endCoord"
  have valid: "?s \<noteq> - 1" "?t \<noteq> - 1" using ok by (auto simp: calculateRoute_def Let_def split: if_splits)
  show ?thesis
  proof (cases "?s = ?t")
    case True
    then obtain node where n: "lookupNode graph ?s = Some node"
      and r: "route = [\<lparr>lat = node_lat node, lon = node_lon node\<rparr>]"
      using ok valid by (auto simp: calculateRoute_def Let_def split: option.splits)
    have "is_walk graph ?s [] ?t" using True by simp
    moreover have "list_all2 (coordinateOf graph) (?s # map edge_to []) route"
      using n r by (simp add: coordinateOf_def)
    ultimately show ?thesis by blast
  next
    case False
    then have m: "map_option (map_sum (\<lambda>e. e) (routeCoords graph)) (searchPath graph ?s ?t) = Some (Inr route)"
      using ok valid by (simp add: calculateRoute_def Let_def)
    then obtain z where z: "searchPath graph ?s ?t = Some z" "map_sum (\<lambda>e. e) (routeCoords graph) z = Inr route"
      by auto
    then obtain path where p: "searchPath graph ?s ?t = Some (Inr path)"
      and r: "route = routeCoords graph path"
      by (cases z) auto
    from loop_path [OF p [unfolded searchPath_def] refl path_inv_init nz False refl] obtain es where
      es: "path = ?s # map edge_to es" "is_walk graph ?s es ?t" "onNodes graph path"
      by blast
    have "list_all2 (coordinateOf graph) path route"
      unfolding r using es(3) by (rule routeCoords_onNodes)
    then show ?thesis using es(1,2) by blast
  qed
qed

subsection \<open>A predecessor with id 0\<close>

lemma neighbors_zeroIdGraph: "neighborsOf (buildAdjacencyList zeroIdGraph) 0 = [(1, 5)]"
  by (simp add: neighborsOf_build zeroIdGraph_def edgeWeight_def)

lemma heuristic_zeroIdGraph:
  "heuristicDistance zeroIdGraph 0 1 = Num (6371 * pi / 50 * 3600)"
  "heuristicDistance zeroIdGraph 1 1 = Num 0"
  by (simp_all add: heuristicDistance_def lookupNode_def nodes_zeroIdGraph
        haversine_0_180 haversine_same)

lemma search_zeroIdGraph: "searchPath zeroIdGraph 0 1 = Some (Inr [1])"
  unfolding searchPath_def
  apply (subst aStarLoop.simps)
  apply (simp add: step_defs neighbors_zeroIdGraph heuristic_zeroIdGraph nodes_zeroIdGraph)
  apply (subst aStarLoop.simps)
  apply (simp add: step_defs neighbors_zeroIdGraph heuristic_zeroIdGraph nodes_zeroIdGraph)
  apply (subst reconstructPath.simps, simp add: step_defs)
  apply (subst reconstructPath.simps, simp)
  done

text \<open>
  C3, at a failing input. The start coordinate resolves to the node 0 at (0, 0), the end
  coordinate to the node 1 at (0, 180), and the edge from 0 to 1 is a path between them.
  The search succeeds, but the walk back stops at the stored predecessor 0, which reads as
  \<open>null\<close>: the route is the single coordinate (0, 180), and its first entry is not the
  coordinate of the start node. By \<open>route_follows_walk\<close> a predecessor with id 0 is
  the only way for a route to lose its first entries.
\<close>

theorem zeroId_route_truncated:
  "findNearestNode zeroIdGraph \<lparr>lat = 0, lon = 0\<rparr> = 0 \<and>
   findNearestNode zeroIdGraph \<lparr>lat = 0, lon = 180\<rparr> = 1 \<and>
   lookupNode zeroIdGraph 0 = Some \<lparr>node_id = 0, node_lat = 0, node_lon = 0\<rparr> \<and>
   is_walk zeroIdGraph 0 (edges zeroIdGraph) 1 \<and>
   calculateRoute zeroIdGraph \<lparr>lat = 0, lon = 0\<rparr> \<lparr>lat = 0, lon = 180\<rparr>
     = Some (Inr [\<lparr>lat = 0, lon = 180\<rparr>])"
  by (simp add: calculateRoute_def nearest_zeroIdGraph search_zeroIdGraph routeCoords_def
        lookupNode_def nodes_zeroIdGraph)
     (simp add: zeroIdGraph_def)

end
